theory Spec2Isabelle
  imports Complex_Main
begin

section \<open>Source positions, types and expressions\<close>

text \<open>
  \<open>WDL/Error.py\<close>, \<open>WDL/Type.py\<close> and \<open>WDL/Expr.py\<close> are imported by the three source files
  but are not part of the source tree; the data they declare is modelled from the
  specification (sections 3 and 4).
\<close>

text \<open>Modelled from the spec: \<open>SourcePosition\<close> of \<open>WDL/Error.py\<close> (section 3).\<close>

record SourcePosition =
  uri :: string
  line :: int
  column :: int
  end_line :: int
  end_column :: int

text \<open>
  Modelled from the spec: the closed set of types of \<open>WDL/Type.py\<close> (section 3). Every type
  carries the \<open>optional\<close> flag; \<open>Array\<close> carries its item type and the \<open>nonempty\<close> flag as well.
\<close>

datatype ty =
    T_Int bool
  | T_Float bool
  | T_Boolean bool
  | T_String bool
  | T_File bool
  | T_Array ty bool bool

fun is_Array :: "ty \<Rightarrow> bool" where
  "is_Array (T_Array t opt ne) = True"
| "is_Array t = False"

fun ty_optional :: "ty \<Rightarrow> bool" where
  "ty_optional (T_Int opt) = opt"
| "ty_optional (T_Float opt) = opt"
| "ty_optional (T_Boolean opt) = opt"
| "ty_optional (T_String opt) = opt"
| "ty_optional (T_File opt) = opt"
| "ty_optional (T_Array t opt ne) = opt"

fun ty_nonempty :: "ty \<Rightarrow> bool" where
  "ty_nonempty (T_Array t opt ne) = ne"
| "ty_nonempty t = False"

text \<open>
  Modelled from the spec: the expression nodes of \<open>WDL/Expr.py\<close> (section 3), each with its
  source position. The parts of a string are literal text or expression nodes. The payload
  of a float literal is only carried, never computed with.
\<close>

datatype expr =
    E_Boolean SourcePosition bool
  | E_Int SourcePosition int
  | E_Float SourcePosition real
  | E_String SourcePosition "part list"
  | E_Array SourcePosition "expr list"
  | E_Apply SourcePosition string "expr list"
  | E_IfThenElse SourcePosition expr expr expr
  | E_Ident SourcePosition "string list"
  | E_Placeholder SourcePosition "(string \<times> string) list" expr
and part =
    Text string
  | Node expr

fun expr_pos :: "expr \<Rightarrow> SourcePosition" where
  "expr_pos (E_Boolean p b) = p"
| "expr_pos (E_Int p i) = p"
| "expr_pos (E_Float p x) = p"
| "expr_pos (E_String p ps) = p"
| "expr_pos (E_Array p xs) = p"
| "expr_pos (E_Apply p f xs) = p"
| "expr_pos (E_IfThenElse p c a b) = p"
| "expr_pos (E_Ident p q) = p"
| "expr_pos (E_Placeholder p os e) = p"

fun is_Placeholder :: "expr \<Rightarrow> bool" where
  "is_Placeholder (E_Placeholder p os e) = True"
| "is_Placeholder e = False"

section \<open>Errors\<close>

text \<open>
  Every exception the modelled code can raise is a value. The first group are Python's own
  exceptions (a failed \<open>assert\<close>, a missing dictionary key, an index out of range, an
  attribute missing on \<open>None\<close>, \<open>sys.exit\<close> through \<open>die\<close>); the second group are the
  validation errors of \<open>WDL/Error.py\<close> (spec section 7).
\<close>

datatype error =
    AssertionError
  | KeyError string
  | IndexError
  | AttributeError
  | SystemExit string
  | IncompatibleOperand SourcePosition string
  | UnknownIdentifier SourcePosition "string list"
  | NoSuchFunction SourcePosition string
  | WrongArity SourcePosition string
  | StaticTypeMismatch SourcePosition ty ty

fun is_ValidationError :: "error \<Rightarrow> bool" where
  "is_ValidationError (IncompatibleOperand p m) = True"
| "is_ValidationError (UnknownIdentifier p q) = True"
| "is_ValidationError (NoSuchFunction p f) = True"
| "is_ValidationError (WrongArity p f) = True"
| "is_ValidationError (StaticTypeMismatch p expected actual) = True"
| "is_ValidationError e = False"

section \<open>Declarations (\<open>WDL/Document.py\<close>)\<close>

record Decl =
  pos :: SourcePosition
  type :: ty
  name :: string
  optional :: bool
  nonempty :: bool
  expr :: "expr option"

text \<open>
  \<open>Decl.__init__\<close>: the fields are stored, then the quantifier invariant is checked and
  the constructor raises when \<open>nonempty\<close> is set on a type that is not an \<open>Array\<close>.
\<close>

definition Decl_init ::
  "SourcePosition \<Rightarrow> ty \<Rightarrow> string \<Rightarrow> bool \<Rightarrow> bool \<Rightarrow> expr option \<Rightarrow> error + Decl" where
  "Decl_init p t n opt ne e =
     (let self = \<lparr>Decl.pos = p, type = t, name = n, optional = opt, nonempty = ne, expr = e\<rparr>
      in if nonempty self \<and> \<not> is_Array t
         then Inl (IncompatibleOperand (pos self) ''nonempty quantifier (+) on non-Array type'')
         else Inr self)"

text \<open>\<open>Decl.bind\<close>: a new \<open>Decl\<close> is constructed from the fields of \<open>self\<close> and the expression.\<close>

definition bind :: "Decl \<Rightarrow> expr \<Rightarrow> error + Decl" where
  "bind self e =
     Decl_init (pos self) (type self) (name self) (optional self) (nonempty self) (Some e)"

section \<open>Type environment, coercion and the type check of one expression\<close>

text \<open>
  Modelled from the spec: \<open>TypeEnv\<close> of \<open>WDL/Expr.py\<close> (section 4.3), a chain of bindings in
  which the most recent binding comes first and wins. \<open>TypeEnv()\<close> is the empty chain and
  \<open>TypeEnv((name, type), env)\<close> puts one binding in front of \<open>env\<close>.
\<close>

type_synonym TypeEnv = "(string \<times> ty) list"

definition TypeEnv_empty :: TypeEnv where
  "TypeEnv_empty = []"

definition TypeEnv :: "string \<times> ty \<Rightarrow> TypeEnv \<Rightarrow> TypeEnv" where
  "TypeEnv b env = b # env"

definition resolve :: "TypeEnv \<Rightarrow> string \<Rightarrow> ty option" where
  "resolve env n = map_of env n"

text \<open>
  Modelled from the spec: \<open>coerces\<close> of \<open>WDL/Type.py\<close> (section 3): identity always coerces,
  \<open>Int\<close> to \<open>Float\<close> always coerces, and with \<open>check_quant\<close> off a type coerces to an
  array of itself and an optional type coerces to any expected type.
\<close>

fun is_Int :: "ty \<Rightarrow> bool" where
  "is_Int (T_Int opt) = True"
| "is_Int t = False"

fun is_Float :: "ty \<Rightarrow> bool" where
  "is_Float (T_Float opt) = True"
| "is_Float t = False"

fun is_Array_of :: "ty \<Rightarrow> ty \<Rightarrow> bool" where
  "is_Array_of (T_Array t opt ne) a = (t = a)"
| "is_Array_of b a = False"

definition coerces :: "ty \<Rightarrow> ty \<Rightarrow> bool \<Rightarrow> bool" where
  "coerces a b check_quant =
     (a = b \<or> (is_Int a \<and> is_Float b)
      \<or> (\<not> check_quant \<and> (is_Array_of b a \<or> ty_optional a)))"

text \<open>The name an identifier's parts spell: Python's \<open>".".join(parts)\<close>.\<close>

fun dotted :: "string list \<Rightarrow> string" where
  "dotted [] = []"
| "dotted [x] = x"
| "dotted (x # y # zs) = x @ ''.'' @ dotted (y # zs)"

text \<open>
  Modelled from the spec: what \<open>infer_type\<close> takes from outside the expression (section 4.2).
  The standard library (\<open>WDL/StdLib.py\<close>, not in the source tree) gives a function name its
  fixed arity and, for the position of the application and the types of the arguments,
  the type of the result or an error. The unification of the types of the two branches
  of a conditional or of the items of an array, which the specification leaves open
  (section 9), gives the common type or the pair of types that do not unify.
\<close>

record stdlib =
  library :: "string \<Rightarrow> (nat \<times> (SourcePosition \<Rightarrow> ty list \<Rightarrow> error + ty)) option"
  unify :: "ty list \<Rightarrow> ty \<times> ty + ty"

fun is_Boolean :: "ty \<Rightarrow> bool" where
  "is_Boolean (T_Boolean opt) = True"
| "is_Boolean t = False"

text \<open>
  Modelled from the spec: \<open>infer_type\<close> of \<open>WDL/Expr.py\<close> (section 4.2), which resolves the
  type of an expression recursively, with the bindings of the environment only. A literal
  has its own type. An identifier resolves in the environment and fails with
  \<open>UnknownIdentifier\<close> when its name is not bound. An application fails with
  \<open>NoSuchFunction\<close> when the library does not know the name and with \<open>WrongArity\<close> when the
  number of arguments is not the function's arity; its arguments are inferred from left to
  right. A conditional needs a \<open>Boolean\<close> condition and branches that unify, and fails with
  \<open>StaticTypeMismatch\<close> otherwise. A string is a \<open>String\<close> whatever the types of its
  placeholders, which are inferred in turn. An array is an array of the unification of
  its items' types. A placeholder carries the type of its expression. The first error
  ends the inference.
\<close>

fun infer_type :: "stdlib \<Rightarrow> expr \<Rightarrow> TypeEnv \<Rightarrow> error + ty"
  and infer_types :: "stdlib \<Rightarrow> expr list \<Rightarrow> TypeEnv \<Rightarrow> error + ty list"
  and infer_parts :: "stdlib \<Rightarrow> part list \<Rightarrow> TypeEnv \<Rightarrow> error + unit" where
  "infer_type lib (E_Boolean p b) type_env = Inr (T_Boolean False)"
| "infer_type lib (E_Int p i) type_env = Inr (T_Int False)"
| "infer_type lib (E_Float p x) type_env = Inr (T_Float False)"
| "infer_type lib (E_String p parts) type_env =
     (case infer_parts lib parts type_env of
        Inl err \<Rightarrow> Inl err
      | Inr u \<Rightarrow> Inr (T_String False))"
| "infer_type lib (E_Array p items) type_env =
     (case infer_types lib items type_env of
        Inl err \<Rightarrow> Inl err
      | Inr ts \<Rightarrow>
          (case unify lib ts of
             Inl (expected, actual) \<Rightarrow> Inl (StaticTypeMismatch p expected actual)
           | Inr t \<Rightarrow> Inr (T_Array t False False)))"
| "infer_type lib (E_Apply p f args) type_env =
     (case library lib f of
        None \<Rightarrow> Inl (NoSuchFunction p f)
      | Some (arity, result) \<Rightarrow>
          if length args \<noteq> arity then Inl (WrongArity p f)
          else (case infer_types lib args type_env of
                  Inl err \<Rightarrow> Inl err
                | Inr ts \<Rightarrow> result p ts))"
| "infer_type lib (E_IfThenElse p c a b) type_env =
     (case infer_type lib c type_env of
        Inl err \<Rightarrow> Inl err
      | Inr tc \<Rightarrow>
          if \<not> is_Boolean tc then Inl (StaticTypeMismatch (expr_pos c) (T_Boolean False) tc)
          else (case infer_type lib a type_env of
                  Inl err \<Rightarrow> Inl err
                | Inr ta \<Rightarrow>
                    (case infer_type lib b type_env of
                       Inl err \<Rightarrow> Inl err
                     | Inr tb \<Rightarrow>
                         (case unify lib [ta, tb] of
                            Inl (expected, actual) \<Rightarrow>
                              Inl (StaticTypeMismatch p expected actual)
                          | Inr t \<Rightarrow> Inr t))))"
| "infer_type lib (E_Ident p q) type_env =
     (case resolve type_env (dotted q) of
        None \<Rightarrow> Inl (UnknownIdentifier p q)
      | Some t \<Rightarrow> Inr t)"
| "infer_type lib (E_Placeholder p options e) type_env = infer_type lib e type_env"
| "infer_types lib [] type_env = Inr []"
| "infer_types lib (e # es) type_env =
     (case infer_type lib e type_env of
        Inl err \<Rightarrow> Inl err
      | Inr t \<Rightarrow>
          (case infer_types lib es type_env of
             Inl err \<Rightarrow> Inl err
           | Inr ts \<Rightarrow> Inr (t # ts)))"
| "infer_parts lib [] type_env = Inr ()"
| "infer_parts lib (Text s # parts) type_env = infer_parts lib parts type_env"
| "infer_parts lib (Node e # parts) type_env =
     (case infer_type lib e type_env of
        Inl err \<Rightarrow> Inl err
      | Inr t \<Rightarrow> infer_parts lib parts type_env)"

text \<open>The names of the identifiers of an expression, in the order of the inference.\<close>

fun idents :: "expr \<Rightarrow> string list"
  and idents_list :: "expr list \<Rightarrow> string list"
  and idents_parts :: "part list \<Rightarrow> string list" where
  "idents (E_Boolean p b) = []"
| "idents (E_Int p i) = []"
| "idents (E_Float p x) = []"
| "idents (E_String p parts) = idents_parts parts"
| "idents (E_Array p items) = idents_list items"
| "idents (E_Apply p f args) = idents_list args"
| "idents (E_IfThenElse p c a b) = idents c @ idents a @ idents b"
| "idents (E_Ident p q) = [dotted q]"
| "idents (E_Placeholder p options e) = idents e"
| "idents_list [] = []"
| "idents_list (e # es) = idents e @ idents_list es"
| "idents_parts [] = []"
| "idents_parts (Text s # parts) = idents_parts parts"
| "idents_parts (Node e # parts) = idents e @ idents_parts parts"

text \<open>
  An error is the unknown identifier of one of the names \<open>ns\<close> when it is
  \<open>UnknownIdentifier\<close> for a name among them that the environment does not bind.
\<close>

fun unknown_in :: "TypeEnv \<Rightarrow> string list \<Rightarrow> error \<Rightarrow> bool" where
  "unknown_in E ns (UnknownIdentifier p q) = (dotted q \<in> set ns \<and> resolve E (dotted q) = None)"
| "unknown_in E ns err = False"

text \<open>
  Modelled from the spec: \<open>e.infer_type(type_env).typecheck(expected)\<close> (section 4.2): the
  type is inferred, then it has to coerce to the expected type, under the one
  \<open>check_quant\<close> flag of the load.
\<close>

definition typecheck ::
  "stdlib \<Rightarrow> bool \<Rightarrow> expr \<Rightarrow> TypeEnv \<Rightarrow> ty \<Rightarrow> error + unit" where
  "typecheck lib check_quant e type_env expected =
     (case infer_type lib e type_env of
        Inl err \<Rightarrow> Inl err
      | Inr actual \<Rightarrow>
          if coerces actual expected check_quant then Inr ()
          else Inl (StaticTypeMismatch (expr_pos e) expected actual))"

section \<open>Tasks (\<open>WDL/Document.py\<close>)\<close>

text \<open>
  \<open>_typecheck_decl\<close>: the expression, when there is one, is checked against the declared
  type in the environment it is given; the environment returned has the declaration's
  binding in front.
\<close>

definition typecheck_decl ::
  "stdlib \<Rightarrow> bool \<Rightarrow> Decl \<Rightarrow> TypeEnv \<Rightarrow> error + TypeEnv" where
  "typecheck_decl lib check_quant decl type_env =
     (case expr decl of
        None \<Rightarrow> Inr (TypeEnv (name decl, type decl) type_env)
      | Some e \<Rightarrow>
          (case typecheck lib check_quant e type_env (type decl) of
             Inl err \<Rightarrow> Inl err
           | Inr u \<Rightarrow> Inr (TypeEnv (name decl, type decl) type_env)))"

text \<open>The loop \<open>for decl in decls: type_env = _typecheck_decl(decl, type_env)\<close>.\<close>

fun typecheck_decls ::
  "stdlib \<Rightarrow> bool \<Rightarrow> Decl list \<Rightarrow> TypeEnv \<Rightarrow> error + TypeEnv" where
  "typecheck_decls lib check_quant [] type_env = Inr type_env"
| "typecheck_decls lib check_quant (decl # decls) type_env =
     (case typecheck_decl lib check_quant decl type_env of
        Inl err \<Rightarrow> Inl err
      | Inr type_env' \<Rightarrow> typecheck_decls lib check_quant decls type_env')"

text \<open>
  The class \<open>Task\<close>. Python does not check the annotated field types, so the record is
  polymorphic in them: the type checker reads a task whose sections are declaration lists
  and whose command is an expression, the transformer stores whatever the section
  dictionary holds.
\<close>

record ('n, 'd, 'c, 'm) Task =
  pos :: SourcePosition
  name :: 'n
  inputs :: 'd
  postinputs :: 'd
  command :: 'c
  outputs :: 'd
  parameter_meta :: 'm
  runtime :: 'm
  meta :: 'm

definition Task_init ::
  "SourcePosition \<Rightarrow> 'n \<Rightarrow> 'd \<Rightarrow> 'd \<Rightarrow> 'c \<Rightarrow> 'd \<Rightarrow> 'm \<Rightarrow> 'm \<Rightarrow> 'm \<Rightarrow> ('n, 'd, 'c, 'm) Task" where
  "Task_init p n ins posts cmd outs pm rt mt =
     \<lparr>pos = p, name = n, inputs = ins, postinputs = posts, command = cmd, outputs = outs,
      parameter_meta = pm, runtime = rt, meta = mt\<rparr>"

text \<open>
  \<open>Task.typecheck\<close>: the environment starts from the one given or from the empty one, runs
  through the inputs and then the post-input declarations, checks the command against
  \<open>String\<close> there, and runs on through the outputs. The method returns nothing.
\<close>

definition Task_typecheck ::
  "stdlib \<Rightarrow> bool \<Rightarrow> (string, Decl list, expr, 'm) Task
     \<Rightarrow> TypeEnv option \<Rightarrow> error + unit" where
  "Task_typecheck lib check_quant self type_env =
     (let type_env0 = (case type_env of None \<Rightarrow> TypeEnv_empty | Some env \<Rightarrow> env)
      in case typecheck_decls lib check_quant (inputs self @ postinputs self) type_env0 of
           Inl err \<Rightarrow> Inl err
         | Inr type_env1 \<Rightarrow>
             (case typecheck lib check_quant (command self) type_env1 (T_String False) of
                Inl err \<Rightarrow> Inl err
              | Inr u \<Rightarrow>
                  (case typecheck_decls lib check_quant (outputs self) type_env1 of
                     Inl err \<Rightarrow> Inl err
                   | Inr type_env2 \<Rightarrow> Inr ())))"

text \<open>
  The reading of the fold that the specification gives (section 4.4): the environment after
  a list of declarations holds the binding of each, the latest in front, whether or not
  the declaration has an expression; a declaration is in order when its expression, if
  any, checks against its declared type; a list of declarations is in order when each is,
  in the environment after the declarations before it.
\<close>

definition env_after :: "Decl list \<Rightarrow> TypeEnv \<Rightarrow> TypeEnv" where
  "env_after decls type_env = rev (map (\<lambda>d. (Decl.name d, type d)) decls) @ type_env"

definition decl_ok ::
  "stdlib \<Rightarrow> bool \<Rightarrow> Decl \<Rightarrow> TypeEnv \<Rightarrow> bool" where
  "decl_ok lib check_quant decl type_env =
     (case expr decl of
        None \<Rightarrow> True
      | Some e \<Rightarrow> typecheck lib check_quant e type_env (type decl) = Inr ())"

definition decls_ok ::
  "stdlib \<Rightarrow> bool \<Rightarrow> Decl list \<Rightarrow> TypeEnv \<Rightarrow> bool" where
  "decls_ok lib check_quant decls type_env =
     (\<forall>i < length decls.
        decl_ok lib check_quant (decls ! i) (env_after (take i decls) type_env))"

definition start_env :: "TypeEnv option \<Rightarrow> TypeEnv" where
  "start_env type_env = (case type_env of None \<Rightarrow> TypeEnv_empty | Some env \<Rightarrow> env)"

section \<open>The transformer (\<open>WDL/__init__.py\<close>)\<close>

text \<open>
  The grammar engine hands every transformer method the already transformed children of
  its rule (\<open>items\<close>) and the rule's position; \<open>sp(meta)\<close> is passed to the model as the
  position \<open>p\<close>. A child is a token (its type and its text) or the result of another
  method.
\<close>

subsection \<open>String and command literals\<close>

datatype item =
    Token string string
  | Expr expr

text \<open>Python's \<open>s.endswith(suffix)\<close> and \<open>s[:-2]\<close>.\<close>

definition endswith :: "string \<Rightarrow> string \<Rightarrow> bool" where
  "endswith s suffix =
     (length suffix \<le> length s \<and> drop (length s - length suffix) s = suffix)"

definition strip2 :: "string \<Rightarrow> string" where
  "strip2 s = take (length s - 2) s"

text \<open>
  The body of the loop of \<open>_ExprTransformer.string\<close>: an expression is wrapped in a
  placeholder without options, the text of a token whose type ends with \<open>_FRAGMENT\<close>
  loses its last two characters, the text of any other token is kept.
\<close>

fun string_part :: "item \<Rightarrow> part" where
  "string_part (Expr e) = Node (E_Placeholder (expr_pos e) [] e)"
| "string_part (Token t v) = (if endswith t ''_FRAGMENT'' then Text (strip2 v) else Text v)"

definition string_rule :: "item list \<Rightarrow> SourcePosition \<Rightarrow> expr" where
  "string_rule items p = E_String p (map string_part items)"

text \<open>
  The body of the loop of \<open>_TaskTransformer.command\<close>: a placeholder is kept as it is; any
  other child is read as a token, and an expression that is not a placeholder has no
  token type to read.
\<close>

fun command_part :: "item \<Rightarrow> error + part" where
  "command_part (Expr e) = (if is_Placeholder e then Inr (Node e) else Inl AttributeError)"
| "command_part (Token t v) =
     (if endswith t ''_FRAGMENT'' then Inr (Text (strip2 v)) else Inr (Text v))"

fun command_parts :: "item list \<Rightarrow> error + part list" where
  "command_parts [] = Inr []"
| "command_parts (i # items) =
     (case command_part i of
        Inl err \<Rightarrow> Inl err
      | Inr x \<Rightarrow>
          (case command_parts items of
             Inl err \<Rightarrow> Inl err
           | Inr xs \<Rightarrow> Inr (x # xs)))"

text \<open>A command's expression children are placeholders.\<close>

definition only_placeholders :: "item list \<Rightarrow> bool" where
  "only_placeholders items =
     list_all (\<lambda>i. case i of Expr e \<Rightarrow> is_Placeholder e | Token t v \<Rightarrow> True) items"

text \<open>
  Modelled from the spec: the children that the grammar engine (\<open>WDL/_parser.py\<close>, not in
  the source tree) hands to the \<open>string\<close> and \<open>command\<close> rules (sections 4.5 and 6). A
  literal is a sequence of segments: literal text that the interpolation-open marker
  follows, an embedded expression (in a command, a placeholder), the placeholder-closing
  marker, and literal text that no marker follows. The engine passes a fragment as a
  token whose text ends with the marker \<open>${\<close>, other literal text as a token with its
  text, and an embedded expression as it is; it drops the closing markers, which carry no
  payload (the comment in \<open>string\<close> says that the grammar filters out the \<open>}\<close>). The types
  of the two kinds of token are parameters.
\<close>

datatype segment =
    Fragment_text string
  | Embedded expr
  | Closing
  | Plain_text string

fun children :: "string \<Rightarrow> string \<Rightarrow> segment list \<Rightarrow> item list" where
  "children ft pt [] = []"
| "children ft pt (Fragment_text s # segs) = Token ft (s @ ''${'') # children ft pt segs"
| "children ft pt (Embedded e # segs) = Expr e # children ft pt segs"
| "children ft pt (Closing # segs) = children ft pt segs"
| "children ft pt (Plain_text s # segs) = Token pt s # children ft pt segs"

text \<open>
  What the specification asks of the parts of a literal (section 4.5): the literal text of
  its segments, without markers, and a node for every embedded expression, in order;
  nothing stands for a closing marker. In a string the node is the placeholder of the
  expression, in a command the placeholder itself.
\<close>

fun literal_parts :: "(expr \<Rightarrow> expr) \<Rightarrow> segment list \<Rightarrow> part list" where
  "literal_parts w [] = []"
| "literal_parts w (Fragment_text s # segs) = Text s # literal_parts w segs"
| "literal_parts w (Embedded e # segs) = Node (w e) # literal_parts w segs"
| "literal_parts w (Closing # segs) = literal_parts w segs"
| "literal_parts w (Plain_text s # segs) = Text s # literal_parts w segs"

definition placeholder_of :: "expr \<Rightarrow> expr" where
  "placeholder_of e = E_Placeholder (expr_pos e) [] e"

fun embeds_placeholder :: "segment \<Rightarrow> bool" where
  "embeds_placeholder (Embedded e) = is_Placeholder e"
| "embeds_placeholder g = True"

subsection \<open>Meta sections\<close>

text \<open>
  What a meta section can hold: a plain value (of the type \<open>'v\<close> that evaluation yields), a
  list, a dictionary, or an expression node that was never evaluated.
\<close>

datatype 'v meta =
    Plain 'v
  | List "'v meta list"
  | Dict "(string \<times> 'v meta) list"
  | Unresolved expr

fun no_expr :: "'v meta \<Rightarrow> bool" where
  "no_expr (Plain v) = True"
| "no_expr (List xs) = list_all no_expr xs"
| "no_expr (Dict kvs) = list_all (\<lambda>kv. no_expr (snd kv)) kvs"
| "no_expr (Unresolved e) = False"

text \<open>
  \<open>meta_literal\<close>: the single child is an expression; its type is inferred in the empty
  environment and it is evaluated in the empty environment at once. Evaluation
  (\<open>eval(Env()).value\<close> of \<open>WDL/Expr.py\<close>) is the parameter \<open>eval\<close>.
\<close>

definition meta_literal ::
  "stdlib \<Rightarrow> (expr \<Rightarrow> error + 'v) \<Rightarrow> expr list \<Rightarrow> error + 'v meta" where
  "meta_literal lib eval items =
     (case items of
        [e] \<Rightarrow>
          (case infer_type lib e TypeEnv_empty of
             Inl err \<Rightarrow> Inl err
           | Inr t \<Rightarrow>
               (case eval e of
                  Inl err \<Rightarrow> Inl err
                | Inr v \<Rightarrow> Inr (Plain v)))
      | _ \<Rightarrow> Inl AssertionError)"

text \<open>\<open>meta_kv\<close> pairs the key token's text with the transformed value.\<close>

definition meta_kv :: "item \<Rightarrow> 'v meta \<Rightarrow> error + string \<times> 'v meta" where
  "meta_kv k v = (case k of Token t s \<Rightarrow> Inr (s, v) | Expr e \<Rightarrow> Inl AttributeError)"

text \<open>\<open>meta_object\<close>: the pairs are stored one by one, and a key met twice fails the assertion.\<close>

fun meta_object_loop ::
  "(string \<times> 'v meta) list \<Rightarrow> (string \<times> 'v meta) list \<Rightarrow> error + (string \<times> 'v meta) list" where
  "meta_object_loop d [] = Inr d"
| "meta_object_loop d ((k, v) # items) =
     (if k \<in> fst ` set d then Inl AssertionError else meta_object_loop (d @ [(k, v)]) items)"

definition meta_object :: "(string \<times> 'v meta) list \<Rightarrow> error + 'v meta" where
  "meta_object items =
     (case meta_object_loop [] items of Inl err \<Rightarrow> Inl err | Inr d \<Rightarrow> Inr (Dict d))"

definition meta_array :: "'v meta list \<Rightarrow> 'v meta" where
  "meta_array items = List items"

text \<open>\<open>meta_section\<close>: a dictionary with the one key the section's keyword spells.\<close>

definition meta_section :: "item \<Rightarrow> 'v meta \<Rightarrow> error + (string \<times> 'v meta) list" where
  "meta_section kind v =
     (case kind of Token t s \<Rightarrow> Inr [(s, v)] | Expr e \<Rightarrow> Inl AttributeError)"

text \<open>
  The parse tree of a meta section's value, and the bottom-up run of the transformer over
  it: every child is transformed first, then the method of the rule is applied.
\<close>

datatype meta_tree =
    Meta_literal "expr list"
  | Meta_array "meta_tree list"
  | Meta_object "(item \<times> meta_tree) list"

fun sequence :: "(error + 'a) list \<Rightarrow> error + 'a list" where
  "sequence [] = Inr []"
| "sequence (x # xs) =
     (case x of
        Inl err \<Rightarrow> Inl err
      | Inr y \<Rightarrow> (case sequence xs of Inl err \<Rightarrow> Inl err | Inr ys \<Rightarrow> Inr (y # ys)))"

fun transform_meta ::
  "stdlib \<Rightarrow> (expr \<Rightarrow> error + 'v) \<Rightarrow> meta_tree \<Rightarrow> error + 'v meta" where
  "transform_meta lib eval (Meta_literal items) = meta_literal lib eval items"
| "transform_meta lib eval (Meta_array ts) =
     (case sequence (map (transform_meta lib eval) ts) of
        Inl err \<Rightarrow> Inl err
      | Inr vs \<Rightarrow> Inr (meta_array vs))"
| "transform_meta lib eval (Meta_object kts) =
     (case sequence (map (\<lambda>kt. case transform_meta lib eval (snd kt) of
                                  Inl err \<Rightarrow> Inl err
                                | Inr v \<Rightarrow> meta_kv (fst kt) v) kts) of
        Inl err \<Rightarrow> Inl err
      | Inr kvs \<Rightarrow> meta_object kvs)"

definition transform_meta_section ::
  "stdlib \<Rightarrow> (expr \<Rightarrow> error + 'v) \<Rightarrow> item \<Rightarrow> meta_tree
     \<Rightarrow> error + (string \<times> 'v meta) list" where
  "transform_meta_section lib eval kind t =
     (case transform_meta lib eval t of
        Inl err \<Rightarrow> Inl err
      | Inr v \<Rightarrow> meta_section kind v)"

subsection \<open>Task sections and their aggregation\<close>

text \<open>
  What the section dictionary of a task can hold: the name token's text, a list of
  declarations, the command's string expression, or the dictionary of a meta section.
  Python's \<open>[]\<close> is the empty declaration list and \<open>{}\<close> the empty dictionary.
\<close>

datatype 'v pyval =
    V_str string
  | V_decls "Decl list"
  | V_expr expr
  | V_meta "'v meta"

text \<open>
  A child of the \<open>task\<close> rule is the fragment a section rule returned (a dictionary, as
  the list of its items) or the name token, which is a \<open>str\<close>.
\<close>

datatype 'v task_item =
    Fragment "(string \<times> 'v pyval) list"
  | Name string

definition input_decls :: "Decl list \<Rightarrow> 'v task_item" where
  "input_decls items = Fragment [(''inputs'', V_decls items)]"

definition noninput_decls :: "Decl list \<Rightarrow> 'v task_item" where
  "noninput_decls items = Fragment [(''decls'', V_decls items)]"

definition output_decls :: "Decl list \<Rightarrow> 'v task_item" where
  "output_decls items = Fragment [(''outputs'', V_decls items)]"

definition command_rule :: "item list \<Rightarrow> SourcePosition \<Rightarrow> error + 'v task_item" where
  "command_rule items p =
     (case command_parts items of
        Inl err \<Rightarrow> Inl err
      | Inr parts \<Rightarrow> Inr (Fragment [(''command'', V_expr (E_String p parts))]))"

definition section_fragment :: "(string \<times> 'v meta) list \<Rightarrow> 'v task_item" where
  "section_fragment d = Fragment (map (\<lambda>kv. (fst kv, V_meta (snd kv))) d)"

text \<open>
  The inner loop of \<open>task\<close>, \<open>for k, v in item.items(): assert k not in d; d[k] = v\<close>, and
  the outer loop over the children. The dictionary \<open>d\<close> is a map.
\<close>

fun merge_items ::
  "(string \<rightharpoonup> 'v pyval) \<Rightarrow> (string \<times> 'v pyval) list \<Rightarrow> error + (string \<rightharpoonup> 'v pyval)" where
  "merge_items d [] = Inr d"
| "merge_items d ((k, v) # kvs) =
     (if d k \<noteq> None then Inl AssertionError else merge_items (d(k \<mapsto> v)) kvs)"

fun task_loop ::
  "(string \<rightharpoonup> 'v pyval) \<Rightarrow> 'v task_item list \<Rightarrow> error + (string \<rightharpoonup> 'v pyval)" where
  "task_loop d [] = Inr d"
| "task_loop d (Fragment kvs # items) =
     (case merge_items d kvs of
        Inl err \<Rightarrow> Inl err
      | Inr d' \<Rightarrow> task_loop d' items)"
| "task_loop d (Name s # items) =
     (if d ''name'' \<noteq> None then Inl AssertionError
      else task_loop (d(''name'' \<mapsto> V_str s)) items)"

text \<open>Python's \<open>d.get(k, dflt)\<close>.\<close>

definition dict_get :: "(string \<rightharpoonup> 'a) \<Rightarrow> string \<Rightarrow> 'a \<Rightarrow> 'a" where
  "dict_get d k dflt = (case d k of None \<Rightarrow> dflt | Some v \<Rightarrow> v)"

text \<open>
  \<open>_TaskTransformer.task\<close>: the sections are gathered, then the task is constructed from
  them; \<open>d["name"]\<close> is read first and \<open>d["command"]\<close> after it, each raising \<open>KeyError\<close>
  when the key is missing, the other sections have defaults.
\<close>

definition task_rule ::
  "'v task_item list \<Rightarrow> SourcePosition
     \<Rightarrow> error + ('v pyval, 'v pyval, 'v pyval, 'v pyval) Task" where
  "task_rule items p =
     (case task_loop Map.empty items of
        Inl err \<Rightarrow> Inl err
      | Inr d \<Rightarrow>
          (case d ''name'' of
             None \<Rightarrow> Inl (KeyError ''name'')
           | Some n \<Rightarrow>
               (case d ''command'' of
                  None \<Rightarrow> Inl (KeyError ''command'')
                | Some c \<Rightarrow>
                    Inr (Task_init p n
                           (dict_get d ''inputs'' (V_decls []))
                           (dict_get d ''decls'' (V_decls []))
                           c
                           (dict_get d ''outputs'' (V_decls []))
                           (dict_get d ''parameter_meta'' (V_meta (Dict [])))
                           (dict_get d ''runtime'' (V_meta (Dict [])))
                           (dict_get d ''meta'' (V_meta (Dict [])))))))"

text \<open>
  The sections a list of children spells out: the pairs of every fragment, and the pair
  \<open>("name", token)\<close> for the name token, in the order of the children.
\<close>

fun item_pairs :: "'v task_item \<Rightarrow> (string \<times> 'v pyval) list" where
  "item_pairs (Fragment kvs) = kvs"
| "item_pairs (Name s) = [(''name'', V_str s)]"

definition section_pairs :: "'v task_item list \<Rightarrow> (string \<times> 'v pyval) list" where
  "section_pairs items = concat (map item_pairs items)"

definition section_keys :: "'v task_item list \<Rightarrow> string list" where
  "section_keys items = map fst (section_pairs items)"

text \<open>
  A mapping stored on a task is in order when it is a dictionary without expression
  nodes. The children of a \<open>task\<close> rule that the transformer's own rules produce: the name
  token, the three declaration sections, the command, and a meta section.
\<close>

fun mapping_ok :: "'v pyval \<Rightarrow> bool" where
  "mapping_ok (V_meta m) = no_expr m"
| "mapping_ok v = False"

inductive from_rules ::
  "stdlib \<Rightarrow> (expr \<Rightarrow> error + 'v) \<Rightarrow> 'v task_item \<Rightarrow> bool"
  for lib eval where
  name_token: "from_rules lib eval (Name s)"
| inputs: "from_rules lib eval (input_decls ds)"
| noninputs: "from_rules lib eval (noninput_decls ds)"
| outputs: "from_rules lib eval (output_decls ds)"
| command: "command_rule its q = Inr it \<Longrightarrow> from_rules lib eval it"
| meta_section:
    "transform_meta_section lib eval kind tree = Inr d \<Longrightarrow>
     from_rules lib eval (section_fragment d)"

code_pred from_rules .

section \<open>The command line (\<open>WDL/CLI.py\<close>)\<close>

subsection \<open>Strings and indexing as Python has them\<close>

text \<open>\<open>str(n)\<close> of an integer, as \<open>str.format\<close> prints it.\<close>

definition digit :: "nat \<Rightarrow> char" where
  "digit n = ''0123456789'' ! (n mod 10)"

fun str_nat :: "nat \<Rightarrow> string" where
  "str_nat n = (if n < 10 then [digit n] else str_nat (n div 10) @ [digit n])"

definition str_int :: "int \<Rightarrow> string" where
  "str_int i = (if i < 0 then ''-'' @ str_nat (nat (- i)) else str_nat (nat i))"

text \<open>\<open>s.split("\\n")\<close>: the text between newlines; a text without a newline is one line.\<close>

fun split_lines :: "string \<Rightarrow> string list" where
  "split_lines [] = [[]]"
| "split_lines (c # cs) =
     (if c = CHR 0x0A then [] # split_lines cs
      else (case split_lines cs of
              [] \<Rightarrow> [[c]]
            | l # ls \<Rightarrow> (c # l) # ls))"

text \<open>\<open>s.replace("\\t", " ")\<close>.\<close>

definition replace_tabs :: "string \<Rightarrow> string" where
  "replace_tabs s = map (\<lambda>c. if c = CHR 0x09 then CHR '' '' else c) s"

text \<open>
  \<open>xs[i]\<close>: an index below zero counts from the end, and an index outside the list raises
  \<open>IndexError\<close>.
\<close>

definition py_index :: "'a list \<Rightarrow> int \<Rightarrow> error + 'a" where
  "py_index xs i =
     (if 0 \<le> i \<and> i < int (length xs) then Inr (xs ! nat i)
      else if i < 0 \<and> 0 \<le> i + int (length xs) then Inr (xs ! nat (i + int (length xs)))
      else Inl IndexError)"

text \<open>\<open>c * n\<close> for a one-character string: empty when \<open>n\<close> is not positive.\<close>

definition times :: "char \<Rightarrow> int \<Rightarrow> string" where
  "times c n = replicate (nat n) c"

subsection \<open>Exceptions and the error printer\<close>

text \<open>
  Modelled from the spec: the exceptions of \<open>WDL/Error.py\<close> (section 7), with the attributes
  \<open>print_error\<close> reads: the position, the message \<open>str(exn)\<close>, the source text
  (\<open>None\<close> until a loader attaches it), the cause of an import error, and the expected and
  actual type of a type mismatch, which is a validation error too. \<open>Exception\<close> is any
  exception without a position, as the cause of an import error can be.
\<close>

datatype exn =
    WDL_SyntaxError SourcePosition string
  | WDL_ImportError SourcePosition string "exn option"
  | WDL_ValidationError SourcePosition string "string option"
  | WDL_StaticTypeMismatch SourcePosition string "string option" ty ty
  | WDL_MultipleValidationErrors "exn list"
  | Exception string

text \<open>The module's global \<open>quant_warning\<close> and the lines printed to standard error.\<close>

record cli_state =
  quant_warning :: bool
  stderr :: "string list"

definition print :: "string \<Rightarrow> cli_state \<Rightarrow> cli_state" where
  "print l st = st\<lparr>stderr := stderr st @ [l]\<rparr>"

definition header :: "SourcePosition \<Rightarrow> string \<Rightarrow> string" where
  "header p msg =
     ''('' @ uri p @ '' Ln '' @ str_int (line p) @ '' Col '' @ str_int (column p) @ '') '' @ msg"

text \<open>
  The loop that moves \<open>end_column\<close> left while it is more than one past \<open>column\<close> and the
  character before it is a space.
\<close>

function trim_end :: "string \<Rightarrow> int \<Rightarrow> int \<Rightarrow> error + int" where
  "trim_end error_line col end_col =
     (if end_col > col + 1 then
        (case py_index error_line (end_col - 2) of
           Inl err \<Rightarrow> Inl err
         | Inr c \<Rightarrow>
             if c = CHR '' '' then trim_end error_line col (end_col - 1) else Inr end_col)
      else Inr end_col)"
  by pat_completeness auto
termination
  by (relation "measure (\<lambda>(error_line, col, end_col). nat (end_col - col))") auto

text \<open>The source excerpt: the reported line, and under it the underline.\<close>

definition underline :: "int \<Rightarrow> int \<Rightarrow> string" where
  "underline col end_col = ''    '' @ times CHR '' '' (col - 1) @ times CHR ''^'' (end_col - col)"

definition show_excerpt :: "SourcePosition \<Rightarrow> string \<Rightarrow> cli_state \<Rightarrow> error + cli_state" where
  "show_excerpt p source_text st =
     (case py_index (split_lines source_text) (line p - 1) of
        Inl err \<Rightarrow> Inl err
      | Inr l \<Rightarrow>
          (let error_line = replace_tabs l;
               st1 = print (''    '' @ error_line) st;
               end_col = (if end_line p > line p then int (length error_line) + 1
                          else end_column p)
           in case trim_end error_line (column p) end_col of
                Inl err \<Rightarrow> Inl err
              | Inr end_col' \<Rightarrow> Inr (print (underline (column p) end_col') st1)))"

text \<open>A source text is there when it is neither \<open>None\<close> nor empty.\<close>

fun truthy :: "string option \<Rightarrow> bool" where
  "truthy None = False"
| "truthy (Some s) = (s \<noteq> [])"

definition excerpt_if_any :: "SourcePosition \<Rightarrow> string option \<Rightarrow> cli_state \<Rightarrow> error + cli_state" where
  "excerpt_if_any p source_text st =
     (case source_text of
        None \<Rightarrow> Inr st
      | Some s \<Rightarrow> if s = [] then Inr st else show_excerpt p s st)"

text \<open>
  \<open>print_error\<close>. Every exception but the aggregate prints its header line; an import
  error goes on to print its cause (\<open>None\<close> prints as such); a validation error with a
  source text shows the excerpt, and a type mismatch there sets \<open>quant_warning\<close> when the
  actual type coerces to the expected one with the quantifier check off.
\<close>

fun print_error :: "exn \<Rightarrow> cli_state \<Rightarrow> error + cli_state"
  and print_errors :: "exn list \<Rightarrow> cli_state \<Rightarrow> error + cli_state" where
  "print_error (WDL_MultipleValidationErrors exns) st = print_errors exns st"
| "print_error (WDL_SyntaxError p msg) st = Inr (print (header p msg) st)"
| "print_error (WDL_ImportError p msg cause) st =
     (case cause of
        None \<Rightarrow> Inr (print ''None'' (print (header p msg) st))
      | Some exn \<Rightarrow> print_error exn (print (header p msg) st))"
| "print_error (WDL_ValidationError p msg source_text) st =
     excerpt_if_any p source_text (print (header p msg) st)"
| "print_error (WDL_StaticTypeMismatch p msg source_text expected actual) st =
     (case excerpt_if_any p source_text (print (header p msg) st) of
        Inl err \<Rightarrow> Inl err
      | Inr st' \<Rightarrow>
          if truthy source_text \<and> coerces actual expected False
          then Inr (st'\<lparr>quant_warning := True\<rparr>)
          else Inr st')"
| "print_error (Exception msg) st = Inr (print msg st)"
| "print_errors [] st = Inr st"
| "print_errors (exn # exns) st =
     (case print_error exn st of
        Inl err \<Rightarrow> Inl err
      | Inr st' \<Rightarrow> print_errors exns st')"

text \<open>
  The exception handler of \<open>main\<close>, up to the hint: the error is printed, then the hint,
  when the quantifier check is on and \<open>quant_warning\<close> is set. (The handler ends by raising
  the exception again or by \<open>sys.exit(2)\<close>.)
\<close>

definition hint :: string where
  "hint = ''* Hint: for compatibility with older existing WDL code, try setting --no-quant-check to relax quantifier validation rules.''"

definition main_handler :: "bool \<Rightarrow> exn \<Rightarrow> cli_state \<Rightarrow> error + cli_state" where
  "main_handler check_quant exn st =
     (case print_error exn st of
        Inl err \<Rightarrow> Inl err
      | Inr st' \<Rightarrow> if check_quant \<and> quant_warning st' then Inr (print hint st') else Inr st')"

text \<open>
  The end of the span on the reported line: the end column, or one past the end of the
  line when the span goes on to a later line. The underline as the specification words it
  (section 7) runs from the column to that end.
\<close>

definition span_end :: "SourcePosition \<Rightarrow> string \<Rightarrow> int" where
  "span_end p error_line =
     (if end_line p > line p then int (length error_line) + 1 else end_column p)"

definition claimed_underline :: "SourcePosition \<Rightarrow> string \<Rightarrow> string" where
  "claimed_underline p error_line = underline (column p) (span_end p error_line)"

subsection \<open>Inputs set to the empty array\<close>

text \<open>
  Modelled from the spec: the display string of a type (section 4.1), which mirrors the
  declared type's surface syntax, as in \<open>Array[Int]+\<close> and \<open>String?\<close>.
\<close>

definition quant_str :: "bool \<Rightarrow> string \<Rightarrow> string" where
  "quant_str flag mark = (if flag then mark else [])"

fun ty_str :: "ty \<Rightarrow> string" where
  "ty_str (T_Int opt) = ''Int'' @ quant_str opt ''?''"
| "ty_str (T_Float opt) = ''Float'' @ quant_str opt ''?''"
| "ty_str (T_Boolean opt) = ''Boolean'' @ quant_str opt ''?''"
| "ty_str (T_String opt) = ''String'' @ quant_str opt ''?''"
| "ty_str (T_File opt) = ''File'' @ quant_str opt ''?''"
| "ty_str (T_Array t opt ne) =
     ''Array['' @ ty_str t @ '']'' @ quant_str ne ''+'' @ quant_str opt ''?''"

text \<open>
  The values of the input environment: an array value with its item type and items, or
  any other value. The environment is a chain of bindings, each with its name, its value
  and the declaration it belongs to; \<open>bind\<close> puts a binding in front.
\<close>

datatype 'v val =
    Value_Array ty "'v val list"
  | Value 'v

type_synonym 'v Bindings = "(string \<times> 'v val \<times> Decl) list"

definition Bindings_bind :: "string \<Rightarrow> 'v val \<Rightarrow> Decl \<Rightarrow> 'v Bindings \<Rightarrow> 'v Bindings" where
  "Bindings_bind n v d env = (n, v, d) # env"

text \<open>\<open>die(msg)\<close> prints the message and leaves through \<open>sys.exit\<close>.\<close>

definition die :: "string \<Rightarrow> error + 'a" where
  "die msg = Inl (SystemExit msg)"

text \<open>
  One round of the loop \<open>for empty_name in empty or []\<close> of \<open>runner_input\<close>. The target's
  name and the help text of the messages are parameters.
\<close>

definition set_empty ::
  "string \<Rightarrow> string \<Rightarrow> (string \<times> Decl) list \<Rightarrow> 'v Bindings \<Rightarrow> string \<Rightarrow> error + 'v Bindings" where
  "set_empty target_name help available_inputs input_env empty_name =
     (case map_of available_inputs empty_name of
        None \<Rightarrow>
          die (''No such input to '' @ target_name @ '': '' @ empty_name @ [CHR 0x0A] @ help)
      | Some decl \<Rightarrow>
          if \<not> is_Array (type decl) \<or> ty_nonempty (type decl)
          then die (''Cannot set input '' @ ty_str (type decl) @ '' '' @ Decl.name decl
                    @ '' to empty array'')
          else (case type decl of
                  T_Array item_type opt ne \<Rightarrow>
                    Inr (Bindings_bind empty_name (Value_Array item_type []) decl input_env)
                | _ \<Rightarrow> Inl AttributeError))"

fun set_empties ::
  "string \<Rightarrow> string \<Rightarrow> (string \<times> Decl) list \<Rightarrow> 'v Bindings \<Rightarrow> string list \<Rightarrow> error + 'v Bindings" where
  "set_empties target_name help available_inputs input_env [] = Inr input_env"
| "set_empties target_name help available_inputs input_env (empty_name # names) =
     (case set_empty target_name help available_inputs input_env empty_name of
        Inl err \<Rightarrow> Inl err
      | Inr input_env' \<Rightarrow> set_empties target_name help available_inputs input_env' names)"

section \<open>Declarations as objects\<close>

text \<open>
  Python's declarations are objects: a call of the constructor allocates a new object and
  leaves every other object alone. The store is the list of the objects allocated so far,
  an object's address its index. \<open>bind_obj\<close> is \<open>Decl.bind\<close> called on the object at an
  address.
\<close>

type_synonym store = "Decl list"

definition alloc :: "store \<Rightarrow> Decl \<Rightarrow> store \<times> nat" where
  "alloc h d = (h @ [d], length h)"

definition bind_obj :: "store \<Rightarrow> nat \<Rightarrow> expr \<Rightarrow> error + store \<times> nat" where
  "bind_obj h self e =
     (if self < length h then
        (case bind (h ! self) e of
           Inl err \<Rightarrow> Inl err
         | Inr d \<Rightarrow> Inr (alloc h d))
      else Inl AttributeError)"

section \<open>Example inputs\<close>

text \<open>Concrete positions, declarations and expressions, used to run the definitions.\<close>

definition pos1 :: SourcePosition where
  "pos1 = \<lparr>uri = ''t.wdl'', line = 1, column = 1, end_line = 1, end_column = 8\<rparr>"

definition pos2 :: SourcePosition where
  "pos2 = \<lparr>uri = ''t.wdl'', line = 2, column = 5, end_line = 2, end_column = 6\<rparr>"

definition decl_xs :: Decl where
  "decl_xs = \<lparr>Decl.pos = pos1, type = T_Array (T_Int False) False True, name = ''xs'',
              optional = False, nonempty = True, expr = None\<rparr>"

text \<open>
  An instance of the library for the examples: the one function is the sum of two
  integers, and types unify when they are the same (the examples hold no empty array;
  for one, the instance gives the item type \<open>Int\<close>).
\<close>

definition add_result :: "SourcePosition \<Rightarrow> ty list \<Rightarrow> error + ty" where
  "add_result p ts =
     (if ts = [T_Int False, T_Int False] then Inr (T_Int False)
      else Inl (IncompatibleOperand p ''Non-numeric operand to +''))"

fun same_type :: "ty list \<Rightarrow> ty \<times> ty + ty" where
  "same_type [] = Inr (T_Int False)"
| "same_type [t] = Inr t"
| "same_type (t # u # ts) = (if t = u then same_type (u # ts) else Inl (t, u))"

definition lib_add :: stdlib where
  "lib_add = \<lparr>library = (\<lambda>f. if f = ''_add'' then Some (2, add_result) else None),
              unify = same_type\<rparr>"

definition decl_a :: Decl where
  "decl_a = \<lparr>Decl.pos = pos1, type = T_Int False, name = ''a'', optional = False,
             nonempty = False, expr = None\<rparr>"

definition a_plus_1 :: expr where
  "a_plus_1 = E_Apply pos2 ''_add'' [E_Ident pos2 [''a''], E_Int pos2 1]"

definition decl_b :: Decl where
  "decl_b = \<lparr>Decl.pos = pos2, type = T_Int False, name = ''b'', optional = False,
             nonempty = False, expr = Some a_plus_1\<rparr>"

definition decl_c :: Decl where
  "decl_c = \<lparr>Decl.pos = pos2, type = T_Float False, name = ''c'', optional = False,
             nonempty = False, expr = Some (E_Ident pos2 [''a''])\<rparr>"

definition task_of :: "Decl list \<Rightarrow> (string, Decl list, expr, unit) Task" where
  "task_of decls =
     Task_init pos1 ''t'' decls [] (E_String pos1 [Text ''echo'']) [] () () ()"

definition cmd_echo :: expr where
  "cmd_echo = E_String pos1 [Text ''echo'']"

definition segs_str :: "segment list" where
  "segs_str = [Fragment_text ''hello '', Embedded (E_Ident pos2 [''x'']), Closing,
               Plain_text ''!'']"

definition segs_cmd :: "segment list" where
  "segs_cmd = [Fragment_text ''echo '',
               Embedded (E_Placeholder pos2 [] (E_Ident pos2 [''x''])), Closing,
               Plain_text '' done'']"

definition items_cmd :: "item list" where
  "items_cmd = [Token ''COMMAND1_FRAGMENT'' ''echo ${'',
                Expr (E_Placeholder pos2 [] (E_Ident pos2 [''x''])),
                Token ''COMMAND1_END'' '' done'']"

text \<open>
  An instance of the evaluation parameter for the examples: plain values, and the
  evaluation of boolean and integer literals, which refuses any other node.
\<close>

datatype plain = P_bool bool | P_int int | P_str string

fun literal_value :: "expr \<Rightarrow> error + plain" where
  "literal_value (E_Boolean p b) = Inr (P_bool b)"
| "literal_value (E_Int p i) = Inr (P_int i)"
| "literal_value e = Inl (NoSuchFunction (expr_pos e) [])"

definition runtime_tree :: meta_tree where
  "runtime_tree =
     Meta_object [(Token ''CNAME'' ''cpu'', Meta_literal [E_Int pos2 4]),
                  (Token ''CNAME'' ''flags'', Meta_array [Meta_literal [E_Boolean pos2 True]])]"

definition runtime_dict :: "plain meta" where
  "runtime_dict = Dict [(''cpu'', Plain (P_int 4)), (''flags'', List [Plain (P_bool True)])]"

definition items_rt :: "plain task_item list" where
  "items_rt = [Name ''t'', Fragment [(''command'', V_expr cmd_echo)],
               section_fragment [(''runtime'', runtime_dict)]]"

definition task_rt :: "(plain pyval, plain pyval, plain pyval, plain pyval) Task" where
  "task_rt = Task_init pos1 (V_str ''t'') (V_decls []) (V_decls []) (V_expr cmd_echo)
      (V_decls []) (V_meta (Dict [])) (V_meta runtime_dict) (V_meta (Dict []))"

definition decl_ys :: Decl where
  "decl_ys = \<lparr>Decl.pos = pos2, type = T_Array (T_String False) False False, name = ''ys'',
              optional = False, nonempty = False, expr = None\<rparr>"

definition available :: "(string \<times> Decl) list" where
  "available = [(''xs'', decl_xs), (''ys'', decl_ys), (''a'', decl_a)]"

definition pos_two_lines :: SourcePosition where
  "pos_two_lines = \<lparr>uri = ''t.wdl'', line = 1, column = 1, end_line = 2, end_column = 3\<rparr>"

definition pos_one_line :: SourcePosition where
  "pos_one_line = \<lparr>uri = ''t.wdl'', line = 2, column = 3, end_line = 2, end_column = 9\<rparr>"

definition src_two_lines :: string where
  "src_two_lines = ''ab  '' @ [CHR 0x0A] @ ''cd''"

definition src_one_line :: string where
  "src_one_line = ''x'' @ [CHR 0x0A] @ ''  abc   ;''"

definition st0 :: cli_state where
  "st0 = \<lparr>quant_warning = False, stderr = []\<rparr>"

section \<open>Properties of declarations\<close>

lemma Decl_init_Inr:
  assumes "Decl_init p t n opt ne x = Inr d"
  shows "\<not> (ne \<and> \<not> is_Array t)"
    and "d = \<lparr>Decl.pos = p, type = t, name = n, optional = opt, nonempty = ne, expr = x\<rparr>"
  using assms by (auto simp: Decl_init_def Let_def split: if_splits)

text \<open>
  Claim C2. A declaration constructed with \<open>nonempty\<close> set fails with \<open>IncompatibleOperand\<close>
  when its type is not an array and is constructed, with the fields as given, when its
  type is an array. The check belongs to the constructor only: the type check of a
  declaration does not read the \<open>nonempty\<close> field again.
\<close>

theorem Decl_init_nonempty:
  "(\<not> is_Array t \<longrightarrow>
      Decl_init p t n opt True e =
        Inl (IncompatibleOperand p ''nonempty quantifier (+) on non-Array type''))
   \<and> (is_Array t \<longrightarrow>
      Decl_init p t n opt True e =
        Inr \<lparr>Decl.pos = p, type = t, name = n, optional = opt, nonempty = True, expr = e\<rparr>)
   \<and> typecheck_decl lib check_quant (d\<lparr>nonempty := b\<rparr>) type_env =
       typecheck_decl lib check_quant d type_env"
  by (simp add: Decl_init_def typecheck_decl_def split: option.split sum.split)

theorem Decl_init_nonempty_witness:
  "Decl_init pos1 (T_Int False) ''x'' False True None =
     Inl (IncompatibleOperand pos1 ''nonempty quantifier (+) on non-Array type'')
   \<and> Decl_init pos1 (T_Array (T_Int False) False True) ''xs'' False True None = Inr decl_xs"
  using Decl_init_nonempty [of "T_Int False" pos1 "''x''" False None]
        Decl_init_nonempty [of "T_Array (T_Int False) False True" pos1 "''xs''" False None]
  by (simp add: decl_xs_def)

text \<open>
  Claim C7. For a declaration \<open>d\<close> that the constructor built, \<open>bind\<close> returns a new
  declaration with the position, type, name and quantifier flags of \<open>d\<close> and with the
  given expression. Called on the object at an address of the store, it allocates the new
  declaration at a fresh address and leaves the object it was called on as it was.
\<close>

theorem bind_pure:
  assumes "Decl_init p t n opt ne x = Inr d"
    and "self < length h"
    and "h ! self = d"
  shows "bind d e = Inr (d\<lparr>expr := Some e\<rparr>)
    \<and> bind_obj h self e = Inr (h @ [d\<lparr>expr := Some e\<rparr>], length h)
    \<and> (h @ [d\<lparr>expr := Some e\<rparr>]) ! self = d
    \<and> self \<noteq> length h
    \<and> Decl.pos (d\<lparr>expr := Some e\<rparr>) = Decl.pos d
    \<and> type (d\<lparr>expr := Some e\<rparr>) = type d
    \<and> Decl.name (d\<lparr>expr := Some e\<rparr>) = Decl.name d
    \<and> optional (d\<lparr>expr := Some e\<rparr>) = optional d
    \<and> nonempty (d\<lparr>expr := Some e\<rparr>) = nonempty d
    \<and> expr (d\<lparr>expr := Some e\<rparr>) = Some e"
proof -
  note wf = Decl_init_Inr [OF assms(1)]
  have b: "bind d e = Inr (d\<lparr>expr := Some e\<rparr>)"
    using wf(1) by (auto simp: bind_def Decl_init_def wf(2))
  have o: "bind_obj h self e = Inr (h @ [d\<lparr>expr := Some e\<rparr>], length h)"
    using assms(2,3) b by (simp add: bind_obj_def alloc_def)
  have k: "(h @ [d\<lparr>expr := Some e\<rparr>]) ! self = d"
    using assms(2,3) by (simp add: nth_append)
  from b o k assms(2) show ?thesis by simp
qed

theorem bind_pure_witness:
  "Decl_init pos1 (T_Array (T_Int False) False True) ''xs'' False True None = Inr decl_xs
   \<and> bind_obj [decl_xs] 0 (E_Array pos2 [E_Int pos2 7]) =
       Inr ([decl_xs, decl_xs\<lparr>expr := Some (E_Array pos2 [E_Int pos2 7])\<rparr>], 1)
   \<and> bind decl_xs (E_Array pos2 [E_Int pos2 7]) =
       Inr (decl_xs\<lparr>expr := Some (E_Array pos2 [E_Int pos2 7])\<rparr>)"
proof -
  have c: "Decl_init pos1 (T_Array (T_Int False) False True) ''xs'' False True None = Inr decl_xs"
    by (simp add: Decl_init_def decl_xs_def)
  have l: "(0::nat) < length [decl_xs]" by simp
  have n: "[decl_xs] ! 0 = decl_xs" by simp
  from bind_pure [OF c l n, of "E_Array pos2 [E_Int pos2 7]"] c show ?thesis by simp
qed

section \<open>Properties of the type check of a task\<close>

lemma env_after_Nil: "env_after [] env = env"
  by (simp add: env_after_def)

lemma env_after_Cons: "env_after (d # ds) env = env_after ds (TypeEnv (Decl.name d, type d) env)"
  by (simp add: env_after_def TypeEnv_def)

lemma env_after_append: "env_after (xs @ ys) env = env_after ys (env_after xs env)"
  by (simp add: env_after_def)

lemma typecheck_decl_Inr:
  "typecheck_decl lib cq d env = Inr env' \<longleftrightarrow>
     decl_ok lib cq d env \<and> env' = TypeEnv (Decl.name d, type d) env"
  by (auto simp: typecheck_decl_def decl_ok_def split: option.splits sum.splits)

lemma decls_ok_Nil: "decls_ok lib cq [] env"
  by (simp add: decls_ok_def)

lemma decls_ok_Cons:
  "decls_ok lib cq (d # ds) env \<longleftrightarrow>
     decl_ok lib cq d env \<and> decls_ok lib cq ds (TypeEnv (Decl.name d, type d) env)"
  by (simp add: decls_ok_def All_less_Suc2 env_after_Nil env_after_Cons)

lemma typecheck_decls_Inr:
  "typecheck_decls lib cq ds env = Inr env' \<longleftrightarrow>
     decls_ok lib cq ds env \<and> env' = env_after ds env"
proof (induction ds arbitrary: env)
  case Nil
  show ?case by (auto simp: decls_ok_Nil env_after_Nil)
next
  case (Cons d ds)
  show ?case
  proof (cases "typecheck_decl lib cq d env")
    case (Inl err)
    then have "\<not> decl_ok lib cq d env"
      using typecheck_decl_Inr [of lib cq d env] by auto
    with Inl show ?thesis by (simp add: decls_ok_Cons)
  next
    case (Inr env1)
    then have "decl_ok lib cq d env" and "env1 = TypeEnv (Decl.name d, type d) env"
      using typecheck_decl_Inr [of lib cq d env env1] by auto
    with Inr Cons.IH [of env1] show ?thesis
      by (simp add: decls_ok_Cons env_after_Cons)
  qed
qed

lemma typecheck_decls_append:
  "typecheck_decls lib cq (xs @ ys) env =
     (case typecheck_decls lib cq xs env of
        Inl err \<Rightarrow> Inl err
      | Inr env' \<Rightarrow> typecheck_decls lib cq ys env')"
  by (induction xs arbitrary: env) (auto split: sum.splits)

lemma resolve_env_after_None:
  "resolve (env_after ds env) n = None \<longleftrightarrow>
     n \<notin> Decl.name ` set ds \<and> resolve env n = None"
  by (auto simp: resolve_def env_after_def map_of_eq_None_iff image_iff)

lemma resolve_env_after_last:
  assumes "j < length ds" and "Decl.name (ds ! j) = n"
    and "\<forall>k. j < k \<and> k < length ds \<longrightarrow> Decl.name (ds ! k) \<noteq> n"
  shows "resolve (env_after ds env) n = Some (type (ds ! j))"
proof -
  have split: "ds = take j ds @ ds ! j # drop (Suc j) ds"
    using assms(1) by (simp add: id_take_nth_drop [symmetric])
  have later: "n \<notin> Decl.name ` set (drop (Suc j) ds)"
  proof
    assume "n \<in> Decl.name ` set (drop (Suc j) ds)"
    then obtain d where "d \<in> set (drop (Suc j) ds)" and "Decl.name d = n" by auto
    then obtain k where "k < length (drop (Suc j) ds)" and "drop (Suc j) ds ! k = d"
      by (auto simp: in_set_conv_nth)
    then have "Suc j + k < length ds" and "ds ! (Suc j + k) = d" by auto
    moreover have "j < Suc j + k" by simp
    ultimately show False using assms(3) \<open>Decl.name d = n\<close> by blast
  qed
  have "env_after ds env =
          env_after (drop (Suc j) ds) ((n, type (ds ! j)) # env_after (take j ds) env)"
    using assms(2) by (subst split) (simp add: env_after_append env_after_Cons TypeEnv_def)
  moreover have "resolve (env_after (drop (Suc j) ds) E) n = resolve E n" for E
  proof -
    have "map_of (rev (map (\<lambda>d. (Decl.name d, type d)) (drop (Suc j) ds))) n = None"
      using later by (simp add: map_of_eq_None_iff image_image)
    then show ?thesis
      by (simp add: resolve_def env_after_def map_add_def)
  qed
  ultimately show ?thesis by (simp add: resolve_def)
qed

text \<open>An inference reads the environment at the expression's identifiers only.\<close>

lemma infer_type_agree:
  "(\<forall>n \<in> set (idents e). resolve E1 n = resolve E2 n) \<Longrightarrow>
     infer_type lib e E1 = infer_type lib e E2"
  "(\<forall>n \<in> set (idents_list es). resolve E1 n = resolve E2 n) \<Longrightarrow>
     infer_types lib es E1 = infer_types lib es E2"
  "(\<forall>n \<in> set (idents_parts ps). resolve E1 n = resolve E2 n) \<Longrightarrow>
     infer_parts lib ps E1 = infer_parts lib ps E2"
proof (induction lib e E2 and lib es E2 and lib ps E2
    rule: infer_type_infer_types_infer_parts.induct)
  case (6 lib p f args type_env)
  then show ?case by (auto split: option.splits sum.splits)
next
  case (7 lib p c a b type_env)
  then show ?case by (auto split: sum.splits)
next
  case (11 lib e es type_env)
  then show ?case by (auto split: sum.splits)
next
  case (14 lib e parts type_env)
  then show ?case by (auto split: sum.splits)
qed (auto split: sum.splits)

text \<open>An inference that succeeds has found every identifier bound.\<close>

lemma infer_type_bound:
  "infer_type lib e E = Inr t \<Longrightarrow> \<forall>n \<in> set (idents e). resolve E n \<noteq> None"
  "infer_types lib es E = Inr ts \<Longrightarrow> \<forall>n \<in> set (idents_list es). resolve E n \<noteq> None"
  "infer_parts lib ps E = Inr u \<Longrightarrow> \<forall>n \<in> set (idents_parts ps). resolve E n \<noteq> None"
proof (induction lib e E and lib es E and lib ps E arbitrary: t and ts and u
    rule: infer_type_infer_types_infer_parts.induct)
  case (6 lib p f args type_env)
  then show ?case by (auto split: option.splits sum.splits if_splits)
next
  case (7 lib p c a b type_env)
  then show ?case by (auto split: sum.splits if_splits)
qed (auto split: sum.splits option.splits)

lemma unknown_in_mono: "unknown_in E ns err \<Longrightarrow> set ns \<subseteq> set ms \<Longrightarrow> unknown_in E ms err"
  by (cases err) auto

text \<open>
  An expression that is well typed where its identifiers are bound fails, where some of
  them are hidden, with the unknown identifier of a hidden one, or is typed as before.
\<close>

lemma infer_type_hidden:
  "infer_type lib e E2 = Inr t \<Longrightarrow>
   (\<forall>n \<in> set (idents e). resolve E1 n = None \<or> resolve E1 n = resolve E2 n) \<Longrightarrow>
     infer_type lib e E1 = Inr t
     \<or> (\<exists>err. infer_type lib e E1 = Inl err \<and> unknown_in E1 (idents e) err)"
  "infer_types lib es E2 = Inr ts \<Longrightarrow>
   (\<forall>n \<in> set (idents_list es). resolve E1 n = None \<or> resolve E1 n = resolve E2 n) \<Longrightarrow>
     infer_types lib es E1 = Inr ts
     \<or> (\<exists>err. infer_types lib es E1 = Inl err \<and> unknown_in E1 (idents_list es) err)"
  "infer_parts lib ps E2 = Inr u \<Longrightarrow>
   (\<forall>n \<in> set (idents_parts ps). resolve E1 n = None \<or> resolve E1 n = resolve E2 n) \<Longrightarrow>
     infer_parts lib ps E1 = Inr u
     \<or> (\<exists>err. infer_parts lib ps E1 = Inl err \<and> unknown_in E1 (idents_parts ps) err)"
proof (induction lib e E2 and lib es E2 and lib ps E2 arbitrary: t and ts and u
    rule: infer_type_infer_types_infer_parts.induct)
  case (4 lib p parts type_env)
  from "4.prems"(1) obtain u where u: "infer_parts lib parts type_env = Inr u"
    and t: "t = T_String False"
    by (auto split: sum.splits)
  from "4.IH" [OF u] "4.prems"(2) show ?case
    by (auto simp: t)
next
  case (5 lib p items type_env)
  from "5.prems"(1) obtain ts where ts: "infer_types lib items type_env = Inr ts"
    by (auto split: sum.splits)
  from "5.IH" [OF ts] "5.prems" ts show ?case
    by auto
next
  case (6 lib p f args type_env)
  from "6.prems"(1) obtain arity result ts where f: "library lib f = Some (arity, result)"
    and ar: "length args = arity" and ts: "infer_types lib args type_env = Inr ts"
    by (auto split: option.splits sum.splits if_splits)
  from "6.IH" [OF f refl _ ts] ar "6.prems" f ts show ?case
    by auto
next
  case (7 lib p c a b type_env)
  from "7.prems"(1) obtain tc ta tb where c: "infer_type lib c type_env = Inr tc"
    and bo: "is_Boolean tc" and a: "infer_type lib a type_env = Inr ta"
    and b: "infer_type lib b type_env = Inr tb"
    by (auto split: sum.splits if_splits)
  have sub: "set (idents c) \<subseteq> set (idents (E_IfThenElse p c a b))"
    "set (idents a) \<subseteq> set (idents (E_IfThenElse p c a b))"
    "set (idents b) \<subseteq> set (idents (E_IfThenElse p c a b))"
    by auto
  from "7.IH"(1) [OF c] "7.prems"(2)
  consider "infer_type lib c E1 = Inr tc"
    | err where "infer_type lib c E1 = Inl err" "unknown_in E1 (idents c) err"
    by auto
  then show ?case
  proof cases
    case 2
    with unknown_in_mono [OF 2(2) sub(1)] show ?thesis by auto
  next
    case 1
    from "7.IH"(2) [OF c _ a] bo "7.prems"(2)
    consider "infer_type lib a E1 = Inr ta"
      | err where "infer_type lib a E1 = Inl err" "unknown_in E1 (idents a) err"
      by auto
    then show ?thesis
    proof cases
      case 2
      with 1 bo unknown_in_mono [OF 2(2) sub(2)] show ?thesis by auto
    next
      case a1: 1
      from "7.IH"(3) [OF c _ a b] bo "7.prems"(2)
      consider "infer_type lib b E1 = Inr tb"
        | err where "infer_type lib b E1 = Inl err" "unknown_in E1 (idents b) err"
        by auto
      then show ?thesis
      proof cases
        case 2
        with 1 a1 bo unknown_in_mono [OF 2(2) sub(3)] show ?thesis by auto
      next
        case b1: 1
        with 1 a1 bo "7.prems"(1) c a b show ?thesis by auto
      qed
    qed
  qed
next
  case (8 lib p q type_env)
  then show ?case by (auto split: option.splits)
next
  case (11 lib e es type_env)
  from "11.prems"(1) obtain t ts' where e: "infer_type lib e type_env = Inr t"
    and es: "infer_types lib es type_env = Inr ts'" and ts: "ts = t # ts'"
    by (auto split: sum.splits)
  have sub: "set (idents e) \<subseteq> set (idents_list (e # es))"
    "set (idents_list es) \<subseteq> set (idents_list (e # es))"
    by auto
  from "11.IH"(1) [OF e] "11.prems"(2)
  consider "infer_type lib e E1 = Inr t"
    | err where "infer_type lib e E1 = Inl err" "unknown_in E1 (idents e) err"
    by auto
  then show ?case
  proof cases
    case 2
    with unknown_in_mono [OF 2(2) sub(1)] show ?thesis by auto
  next
    case 1
    from "11.IH"(2) [OF e es] "11.prems"(2)
    consider "infer_types lib es E1 = Inr ts'"
      | err where "infer_types lib es E1 = Inl err" "unknown_in E1 (idents_list es) err"
      by auto
    then show ?thesis
    proof cases
      case 2
      with 1 unknown_in_mono [OF 2(2) sub(2)] show ?thesis by auto
    next
      case es1: 1
      with 1 ts show ?thesis by auto
    qed
  qed
next
  case (14 lib e parts type_env)
  from "14.prems"(1) obtain t where e: "infer_type lib e type_env = Inr t"
    and ps: "infer_parts lib parts type_env = Inr u"
    by (auto split: sum.splits)
  have sub: "set (idents e) \<subseteq> set (idents_parts (Node e # parts))"
    "set (idents_parts parts) \<subseteq> set (idents_parts (Node e # parts))"
    by auto
  from "14.IH"(1) [OF e] "14.prems"(2)
  consider "infer_type lib e E1 = Inr t"
    | err where "infer_type lib e E1 = Inl err" "unknown_in E1 (idents e) err"
    by auto
  then show ?case
  proof cases
    case 2
    with unknown_in_mono [OF 2(2) sub(1)] show ?thesis by auto
  next
    case 1
    from "14.IH"(2) [OF e ps] "14.prems"(2)
    consider "infer_parts lib parts E1 = Inr u"
      | err where "infer_parts lib parts E1 = Inl err" "unknown_in E1 (idents_parts parts) err"
      by auto
    then show ?thesis
    proof cases
      case 2
      with 1 unknown_in_mono [OF 2(2) sub(2)] show ?thesis by auto
    next
      case ps1: 1
      with 1 show ?thesis by auto
    qed
  qed
qed auto

lemma typecheck_Ident_unbound:
  "resolve env (dotted q) = None \<Longrightarrow>
   typecheck lib cq (E_Ident p q) env t = Inl (UnknownIdentifier p q)"
  by (simp add: typecheck_def)

lemma typecheck_Ident_bound:
  "resolve env (dotted q) = Some a \<Longrightarrow> coerces a t cq \<Longrightarrow>
   typecheck lib cq (E_Ident p q) env t = Inr ()"
  by (simp add: typecheck_def)

lemma Task_typecheck_Inr:
  "Task_typecheck lib cq t env = Inr () \<longleftrightarrow>
     decls_ok lib cq (inputs t @ postinputs t) (start_env env)
     \<and> typecheck lib cq (command t)
         (env_after (inputs t @ postinputs t) (start_env env)) (T_String False) = Inr ()
     \<and> decls_ok lib cq (outputs t) (env_after (inputs t @ postinputs t) (start_env env))"
proof (cases "typecheck_decls lib cq (inputs t @ postinputs t) (start_env env)")
  case (Inl err)
  then have "\<not> decls_ok lib cq (inputs t @ postinputs t) (start_env env)"
    using typecheck_decls_Inr [of lib cq "inputs t @ postinputs t" "start_env env"] by auto
  with Inl show ?thesis
    by (simp add: Task_typecheck_def start_env_def)
next
  case (Inr env1)
  then have ok: "decls_ok lib cq (inputs t @ postinputs t) (start_env env)"
    and env1: "env1 = env_after (inputs t @ postinputs t) (start_env env)"
    using typecheck_decls_Inr [of lib cq "inputs t @ postinputs t" "start_env env" env1]
    by auto
  show ?thesis
  proof (cases "typecheck lib cq (command t) env1 (T_String False)")
    case (Inl err)
    with Inr env1 show ?thesis
      by (simp add: Task_typecheck_def start_env_def)
  next
    case cmd: (Inr u)
    show ?thesis
    proof (cases "typecheck_decls lib cq (outputs t) env1")
      case (Inl err)
      then have "\<not> decls_ok lib cq (outputs t) env1"
        using typecheck_decls_Inr [of lib cq "outputs t" env1] by auto
      with Inl Inr cmd env1 show ?thesis
        by (simp add: Task_typecheck_def start_env_def)
    next
      case outs: (Inr env2)
      then have "decls_ok lib cq (outputs t) env1"
        using typecheck_decls_Inr [of lib cq "outputs t" env1 env2] by auto
      with outs Inr cmd env1 ok show ?thesis
        by (simp add: Task_typecheck_def start_env_def)
    qed
  qed
qed

lemma Task_typecheck_decls_Inl:
  "typecheck_decls lib cq (inputs t @ postinputs t) (start_env env) = Inl err \<Longrightarrow>
   Task_typecheck lib cq t env = Inl err"
  by (simp add: Task_typecheck_def start_env_def)

lemma decls_ok_take:
  "decls_ok lib cq ds env \<Longrightarrow> decls_ok lib cq (take i ds) env"
  by (simp add: decls_ok_def)

lemma typecheck_decls_stops:
  assumes "i < length ds"
    and "decls_ok lib cq (take i ds) env"
    and "typecheck_decl lib cq (ds ! i) (env_after (take i ds) env) = Inl err"
  shows "typecheck_decls lib cq ds env = Inl err"
proof -
  have "ds = take i ds @ ds ! i # drop (Suc i) ds"
    using assms(1) by (simp add: id_take_nth_drop [symmetric])
  then have "typecheck_decls lib cq ds env =
      typecheck_decls lib cq (take i ds @ ds ! i # drop (Suc i) ds) env" by simp
  also have "\<dots> = Inl err"
    using assms(2,3) typecheck_decls_Inr [of lib cq "take i ds" env "env_after (take i ds) env"]
    by (simp add: typecheck_decls_append)
  finally show ?thesis .
qed

lemma typecheck_decls_passes:
  assumes "i < length ds"
    and "decls_ok lib cq (take i ds) env"
    and "decl_ok lib cq (ds ! i) (env_after (take i ds) env)"
  shows "typecheck_decls lib cq (take (Suc i) ds) env = Inr (env_after (take (Suc i) ds) env)"
proof -
  have "decl_ok lib cq (take (Suc i) ds ! k) (env_after (take k (take (Suc i) ds)) env)"
    if "k < length (take (Suc i) ds)" for k
  proof (cases "k < i")
    case True
    then have "decl_ok lib cq (take i ds ! k) (env_after (take k (take i ds)) env)"
      using assms(1,2) by (simp add: decls_ok_def)
    with True show ?thesis by (simp add: min_def)
  next
    case False
    with that have "k = i" by simp
    with assms(3) show ?thesis by (simp add: min_def)
  qed
  then have "decls_ok lib cq (take (Suc i) ds) env"
    unfolding decls_ok_def by blast
  then show ?thesis
    by (simp add: typecheck_decls_Inr)
qed

lemma typecheck_agree:
  "(\<forall>n \<in> set (idents e). resolve E1 n = resolve E2 n) \<Longrightarrow>
     typecheck lib cq e E1 t = typecheck lib cq e E2 t"
  by (simp add: typecheck_def infer_type_agree(1) [of e E1 E2])

lemma typecheck_unbound:
  assumes "n \<in> set (idents e)" and "resolve E n = None"
  shows "\<exists>err. typecheck lib cq e E t = Inl err"
proof (cases "infer_type lib e E")
  case (Inl err)
  then show ?thesis by (simp add: typecheck_def)
next
  case (Inr a)
  from infer_type_bound(1) [OF Inr] assms show ?thesis by blast
qed

lemma typecheck_hidden:
  assumes "infer_type lib e E2 = Inr t2"
    and "\<forall>m \<in> set (idents e). resolve E1 m = None \<or> resolve E1 m = resolve E2 m"
    and "n \<in> set (idents e)" and "resolve E1 n = None"
  shows "\<exists>err. typecheck lib cq e E1 t = Inl err \<and> unknown_in E1 (idents e) err"
proof -
  from infer_type_hidden(1) [OF assms(1,2)]
  consider "infer_type lib e E1 = Inr t2"
    | err where "infer_type lib e E1 = Inl err" and "unknown_in E1 (idents e) err"
    by blast
  then show ?thesis
  proof cases
    case 1
    from infer_type_bound(1) [OF 1] assms(3,4) show ?thesis by blast
  next
    case 2
    then show ?thesis by (simp add: typecheck_def)
  qed
qed

text \<open>
  Claim C1. \<open>Task.typecheck\<close> is a left-to-right fold. It succeeds exactly when every input
  and post-input declaration is in order in the environment of the declarations before
  it, the command checks against \<open>String\<close> in the environment of all of them, and the
  outputs are in order from there on; every declaration is bound, with or without an
  expression. A declaration whose expression holds an identifier that neither the
  starting environment nor an earlier declaration binds makes the check fail; when the
  declarations before it are in order and the expression is well typed where its
  identifiers are bound (as it is once the declaration referred to comes first), the
  failure is the unknown identifier of a name that is not bound yet. An earlier
  declaration is visible to a later one with its declared type, the latest of a name
  winning; an expression that checks where its identifiers resolve as they do after the
  earlier declarations is passed, and so is an identifier that names an earlier
  declaration of a type that coerces to the declared one.
\<close>

theorem Task_typecheck_fold:
  "(Task_typecheck lib cq t env = Inr () \<longleftrightarrow>
      decls_ok lib cq (inputs t @ postinputs t) (start_env env)
      \<and> typecheck lib cq (command t)
          (env_after (inputs t @ postinputs t) (start_env env)) (T_String False) = Inr ()
      \<and> decls_ok lib cq (outputs t) (env_after (inputs t @ postinputs t) (start_env env)))
   \<and> (i < length (inputs t @ postinputs t)
      \<and> expr ((inputs t @ postinputs t) ! i) = Some e
      \<and> n \<in> set (idents e)
      \<and> resolve (start_env env) n = None
      \<and> n \<notin> Decl.name ` set (take i (inputs t @ postinputs t))
      \<longrightarrow> (\<exists>err. Task_typecheck lib cq t env = Inl err)
        \<and> (decls_ok lib cq (take i (inputs t @ postinputs t)) (start_env env)
           \<and> infer_type lib e E2 = Inr t2
           \<and> (\<forall>m \<in> set (idents e).
                 resolve (env_after (take i (inputs t @ postinputs t)) (start_env env)) m = None
                 \<or> resolve (env_after (take i (inputs t @ postinputs t)) (start_env env)) m
                    = resolve E2 m)
           \<longrightarrow> (\<exists>err. Task_typecheck lib cq t env = Inl err
                 \<and> unknown_in (env_after (take i (inputs t @ postinputs t)) (start_env env))
                      (idents e) err)))
   \<and> (j < i \<and> i < length (inputs t @ postinputs t)
      \<and> (\<forall>k. j < k \<and> k < i \<longrightarrow>
             Decl.name ((inputs t @ postinputs t) ! k) \<noteq> Decl.name ((inputs t @ postinputs t) ! j))
      \<longrightarrow> resolve (env_after (take i (inputs t @ postinputs t)) (start_env env))
            (Decl.name ((inputs t @ postinputs t) ! j))
          = Some (type ((inputs t @ postinputs t) ! j)))
   \<and> (i < length (inputs t @ postinputs t)
      \<and> expr ((inputs t @ postinputs t) ! i) = Some e
      \<and> decls_ok lib cq (take i (inputs t @ postinputs t)) (start_env env)
      \<and> (\<forall>m \<in> set (idents e).
            resolve (env_after (take i (inputs t @ postinputs t)) (start_env env)) m
            = resolve E2 m)
      \<and> typecheck lib cq e E2 (type ((inputs t @ postinputs t) ! i)) = Inr ()
      \<longrightarrow> typecheck_decls lib cq (take (Suc i) (inputs t @ postinputs t)) (start_env env)
          = Inr (env_after (take (Suc i) (inputs t @ postinputs t)) (start_env env)))
   \<and> (j < i \<and> i < length (inputs t @ postinputs t)
      \<and> expr ((inputs t @ postinputs t) ! i) = Some (E_Ident p q)
      \<and> Decl.name ((inputs t @ postinputs t) ! j) = dotted q
      \<and> (\<forall>k. j < k \<and> k < i \<longrightarrow> Decl.name ((inputs t @ postinputs t) ! k) \<noteq> dotted q)
      \<and> coerces (type ((inputs t @ postinputs t) ! j)) (type ((inputs t @ postinputs t) ! i)) cq
      \<and> decls_ok lib cq (take i (inputs t @ postinputs t)) (start_env env)
      \<longrightarrow> typecheck_decls lib cq (take (Suc i) (inputs t @ postinputs t)) (start_env env)
          = Inr (env_after (take (Suc i) (inputs t @ postinputs t)) (start_env env)))"
    (is "?A \<and> (?B \<longrightarrow> ?B') \<and> (?V \<longrightarrow> ?V') \<and> (?G \<longrightarrow> ?G') \<and> (?C \<longrightarrow> ?C')")
proof -
  define ds where "ds = inputs t @ postinputs t"
  define E where "E = env_after (take i ds) (start_env env)"
  have A: ?A by (rule Task_typecheck_Inr)
  have B: "?B \<longrightarrow> ?B'"
  proof
    assume b: ?B
    then have i: "i < length ds" and e: "expr (ds ! i) = Some e"
      and n: "n \<in> set (idents e)" and un: "resolve E n = None"
      by (simp_all add: ds_def E_def resolve_env_after_None)
    from typecheck_unbound [OF n un] obtain err0
      where err0: "typecheck lib cq e E (type (ds ! i)) = Inl err0" by blast
    then have "\<not> decl_ok lib cq (ds ! i) E"
      using e by (simp add: decl_ok_def)
    then have "\<not> decls_ok lib cq ds (start_env env)"
      using i by (auto simp: decls_ok_def E_def)
    then have "\<forall>env'. typecheck_decls lib cq ds (start_env env) \<noteq> Inr env'"
      by (simp add: typecheck_decls_Inr)
    then obtain err where "typecheck_decls lib cq ds (start_env env) = Inl err"
      by (cases "typecheck_decls lib cq ds (start_env env)") auto
    then have some: "\<exists>err. Task_typecheck lib cq t env = Inl err"
      unfolding ds_def by (blast dest: Task_typecheck_decls_Inl)
    have this_one: "\<exists>err. Task_typecheck lib cq t env = Inl err \<and> unknown_in E (idents e) err"
      if ok: "decls_ok lib cq (take i ds) (start_env env)"
        and typed: "infer_type lib e E2 = Inr t2"
        and hid: "\<forall>m \<in> set (idents e). resolve E m = None \<or> resolve E m = resolve E2 m"
    proof -
      from typecheck_hidden [OF typed hid n un] obtain err
        where err: "typecheck lib cq e E (type (ds ! i)) = Inl err"
          and u: "unknown_in E (idents e) err" by blast
      from err e have "typecheck_decl lib cq (ds ! i) E = Inl err"
        by (simp add: typecheck_decl_def)
      from typecheck_decls_stops [OF i ok this [unfolded E_def]]
      have "Task_typecheck lib cq t env = Inl err"
        unfolding ds_def by (rule Task_typecheck_decls_Inl)
      with u show ?thesis by blast
    qed
    from some this_one show ?B' unfolding ds_def E_def by blast
  qed
  have V: "?V \<longrightarrow> ?V'"
  proof
    assume v: ?V
    then have j: "j < i" and i: "i < length ds"
      and last: "\<forall>k. j < k \<and> k < i \<longrightarrow> Decl.name (ds ! k) \<noteq> Decl.name (ds ! j)"
      by (simp_all add: ds_def)
    have "resolve (env_after (take i ds) (start_env env)) (Decl.name (ds ! j))
        = Some (type (take i ds ! j))"
      using j i last by (intro resolve_env_after_last) auto
    then have "resolve (env_after (take i ds) (start_env env)) (Decl.name (ds ! j))
        = Some (type (ds ! j))"
      using j by simp
    then show ?V' unfolding ds_def .
  qed
  have G: "?G \<longrightarrow> ?G'"
  proof
    assume g: ?G
    then have i: "i < length ds" and e: "expr (ds ! i) = Some e"
      and before: "decls_ok lib cq (take i ds) (start_env env)"
      and same: "\<forall>m \<in> set (idents e). resolve E m = resolve E2 m"
      and typed: "typecheck lib cq e E2 (type (ds ! i)) = Inr ()"
      by (simp_all add: ds_def E_def)
    from typecheck_agree [OF same] typed
    have "typecheck lib cq e E (type (ds ! i)) = Inr ()" by simp
    then have "decl_ok lib cq (ds ! i) E"
      using e by (simp add: decl_ok_def)
    then show ?G'
      using typecheck_decls_passes [OF i before] unfolding ds_def E_def by simp
  qed
  have C: "?C \<longrightarrow> ?C'"
  proof
    assume c: ?C
    then have j: "j < i" and i: "i < length ds" and e: "expr (ds ! i) = Some (E_Ident p q)"
      and n: "Decl.name (ds ! j) = dotted q"
      and last: "\<forall>k. j < k \<and> k < i \<longrightarrow> Decl.name (ds ! k) \<noteq> dotted q"
      and co: "coerces (type (ds ! j)) (type (ds ! i)) cq"
      and before: "decls_ok lib cq (take i ds) (start_env env)"
      by (simp_all add: ds_def)
    have "resolve (env_after (take i ds) (start_env env)) (dotted q) = Some (type (take i ds ! j))"
      using j i n last by (intro resolve_env_after_last [where n = "dotted q"]) auto
    then have "resolve E (dotted q) = Some (type (ds ! j))"
      using j by (simp add: E_def)
    then have "decl_ok lib cq (ds ! i) E"
      using e co by (simp add: decl_ok_def typecheck_Ident_bound)
    then show ?C'
      using typecheck_decls_passes [OF i before] unfolding ds_def E_def by simp
  qed
  show ?thesis by (rule conjI [OF A conjI [OF B conjI [OF V conjI [OF G C]]]])
qed

theorem Task_typecheck_fold_witness:
  "Task_typecheck lib_add True (task_of [decl_a, decl_b]) None = Inr ()
   \<and> decls_ok lib_add True [decl_a, decl_b] []
   \<and> resolve (env_after [decl_a] []) ''a'' = Some (T_Int False)
   \<and> typecheck_decls lib_add True [decl_a, decl_b] [] =
       Inr [(''b'', T_Int False), (''a'', T_Int False)]
   \<and> Task_typecheck lib_add True (task_of [decl_b, decl_a]) None =
       Inl (UnknownIdentifier pos2 [''a''])
   \<and> (\<exists>err. Task_typecheck lib_add True (task_of [decl_b, decl_a]) None = Inl err
         \<and> unknown_in [] [''a''] err)
   \<and> typecheck_decls lib_add True [decl_a, decl_c] [] =
       Inr [(''c'', T_Float False), (''a'', T_Int False)]"
proof -
  have ds: "inputs (task_of xs) @ postinputs (task_of xs) = xs" for xs
    by (simp add: task_of_def Task_init_def)
  have run: "Task_typecheck lib_add True (task_of [decl_a, decl_b]) None = Inr ()"
    by (simp add: Task_typecheck_def task_of_def Task_init_def decl_a_def decl_b_def
        a_plus_1_def lib_add_def add_result_def typecheck_decl_def typecheck_def resolve_def
        TypeEnv_def TypeEnv_empty_def coerces_def)
  have fails: "Task_typecheck lib_add True (task_of [decl_b, decl_a]) None =
       Inl (UnknownIdentifier pos2 [''a''])"
    by (simp add: Task_typecheck_def task_of_def Task_init_def decl_a_def decl_b_def
        a_plus_1_def lib_add_def add_result_def typecheck_decl_def typecheck_def resolve_def
        TypeEnv_def TypeEnv_empty_def coerces_def)
  note ab = Task_typecheck_fold [where lib = lib_add and cq = True
      and t = "task_of [decl_a, decl_b]" and env = None and i = 1 and j = 0
      and e = a_plus_1 and ?E2.0 = "[(''a'', T_Int False)]", unfolded ds]
  note ba = Task_typecheck_fold [where lib = lib_add and cq = True
      and t = "task_of [decl_b, decl_a]" and env = None and i = 0
      and e = a_plus_1 and n = "''a''" and ?E2.0 = "[(''a'', T_Int False)]"
      and ?t2.0 = "T_Int False", unfolded ds]
  note ac = Task_typecheck_fold [where lib = lib_add and cq = True
      and t = "task_of [decl_a, decl_c]" and env = None and i = 1 and j = 0
      and p = pos2 and q = "[''a'']", unfolded ds]
  have a1: "decls_ok lib_add True [decl_a, decl_b] []"
    using ab [THEN conjunct1] run by (simp add: start_env_def TypeEnv_empty_def)
  have first: "decls_ok lib_add True (take 1 [decl_a, decl_b]) (start_env None)"
    "decls_ok lib_add True (take 1 [decl_a, decl_c]) (start_env None)"
    by (simp_all add: decls_ok_def decl_ok_def decl_a_def)
  have vis: "(0::nat) < 1 \<and> 1 < length [decl_a, decl_b]
      \<and> (\<forall>k. 0 < k \<and> k < 1 \<longrightarrow>
             Decl.name ([decl_a, decl_b] ! k) \<noteq> Decl.name ([decl_a, decl_b] ! 0))"
    by auto
  have a2: "resolve (env_after [decl_a] []) ''a'' = Some (T_Int False)"
    using ab [THEN conjunct2, THEN conjunct2, THEN conjunct1, THEN mp, OF vis]
    by (simp add: start_env_def TypeEnv_empty_def decl_a_def)
  have good: "1 < length [decl_a, decl_b]
      \<and> expr ([decl_a, decl_b] ! 1) = Some a_plus_1
      \<and> decls_ok lib_add True (take 1 [decl_a, decl_b]) (start_env None)
      \<and> (\<forall>m \<in> set (idents a_plus_1).
            resolve (env_after (take 1 [decl_a, decl_b]) (start_env None)) m
            = resolve [(''a'', T_Int False)] m)
      \<and> typecheck lib_add True a_plus_1 [(''a'', T_Int False)] (type ([decl_a, decl_b] ! 1))
          = Inr ()"
    using first(1)
    by (simp add: decl_a_def decl_b_def a_plus_1_def env_after_def start_env_def
        TypeEnv_empty_def resolve_def typecheck_def lib_add_def add_result_def coerces_def)
  have a3: "typecheck_decls lib_add True [decl_a, decl_b] [] =
       Inr [(''b'', T_Int False), (''a'', T_Int False)]"
    using ab [THEN conjunct2, THEN conjunct2, THEN conjunct2, THEN conjunct1, THEN mp, OF good]
    by (simp add: start_env_def TypeEnv_empty_def env_after_def decl_a_def decl_b_def)
  have fw: "0 < length [decl_b, decl_a]
      \<and> expr ([decl_b, decl_a] ! 0) = Some a_plus_1
      \<and> ''a'' \<in> set (idents a_plus_1)
      \<and> resolve (start_env None) ''a'' = None
      \<and> ''a'' \<notin> Decl.name ` set (take 0 [decl_b, decl_a])"
    by (simp add: decl_b_def a_plus_1_def start_env_def TypeEnv_empty_def resolve_def)
  have typed: "decls_ok lib_add True (take 0 [decl_b, decl_a]) (start_env None)
      \<and> infer_type lib_add a_plus_1 [(''a'', T_Int False)] = Inr (T_Int False)
      \<and> (\<forall>m \<in> set (idents a_plus_1).
            resolve (env_after (take 0 [decl_b, decl_a]) (start_env None)) m = None
            \<or> resolve (env_after (take 0 [decl_b, decl_a]) (start_env None)) m
               = resolve [(''a'', T_Int False)] m)"
    by (simp add: decls_ok_def a_plus_1_def lib_add_def add_result_def resolve_def
        env_after_def start_env_def TypeEnv_empty_def)
  have a4: "\<exists>err. Task_typecheck lib_add True (task_of [decl_b, decl_a]) None = Inl err
         \<and> unknown_in [] [''a''] err"
    using ba [THEN conjunct2, THEN conjunct1, THEN mp, OF fw, THEN conjunct2, THEN mp, OF typed]
    by (simp add: env_after_def start_env_def TypeEnv_empty_def a_plus_1_def)
  have bk: "(0::nat) < 1 \<and> 1 < length [decl_a, decl_c]
      \<and> expr ([decl_a, decl_c] ! 1) = Some (E_Ident pos2 [''a''])
      \<and> Decl.name ([decl_a, decl_c] ! 0) = dotted [''a'']
      \<and> (\<forall>k. 0 < k \<and> k < 1 \<longrightarrow> Decl.name ([decl_a, decl_c] ! k) \<noteq> dotted [''a''])
      \<and> coerces (type ([decl_a, decl_c] ! 0)) (type ([decl_a, decl_c] ! 1)) True
      \<and> decls_ok lib_add True (take 1 [decl_a, decl_c]) (start_env None)"
    using first(2) by (auto simp: decl_a_def decl_c_def coerces_def)
  have a5: "typecheck_decls lib_add True [decl_a, decl_c] [] =
       Inr [(''c'', T_Float False), (''a'', T_Int False)]"
    using ac [THEN conjunct2, THEN conjunct2, THEN conjunct2, THEN conjunct2, THEN mp, OF bk]
    by (simp add: start_env_def TypeEnv_empty_def env_after_def decl_a_def decl_c_def)
  from run a1 a2 a3 fails a4 a5 show ?thesis by simp
qed

section \<open>Properties of the aggregation of a task\<close>

lemma merge_items_eq:
  "merge_items d kvs =
     (if distinct (map fst kvs) \<and> fst ` set kvs \<inter> dom d = {}
      then Inr (d ++ map_of kvs) else Inl AssertionError)"
proof (induction kvs arbitrary: d)
  case Nil
  show ?case by simp
next
  case (Cons kv kvs)
  obtain k v where kv: "kv = (k, v)" by (cases kv)
  show ?case
  proof (cases "d k")
    case (Some w)
    then have "fst ` set (kv # kvs) \<inter> dom d \<noteq> {}" by (auto simp: kv)
    with Some show ?thesis by (simp add: kv)
  next
    case None
    define d1 where "d1 = d(k \<mapsto> v)"
    have run: "merge_items d (kv # kvs) = merge_items d1 kvs"
      using None by (simp add: kv d1_def)
    have cond: "(distinct (map fst (kv # kvs)) \<and> fst ` set (kv # kvs) \<inter> dom d = {}) \<longleftrightarrow>
        (distinct (map fst kvs) \<and> fst ` set kvs \<inter> dom d1 = {})"
      using None by (auto simp: kv d1_def)
    show ?thesis
    proof (cases "distinct (map fst kvs) \<and> fst ` set kvs \<inter> dom d1 = {}")
      case False
      with cond run Cons.IH [of d1] show ?thesis by (simp only: if_False)
    next
      case True
      then have "k \<notin> fst ` set kvs" by (auto simp: d1_def)
      then have "map_of kvs k = None" by (simp add: map_of_eq_None_iff)
      then have "d1 ++ map_of kvs = d ++ map_of (kv # kvs)"
        by (auto simp: map_add_def fun_eq_iff kv d1_def split: option.splits)
      with True cond run Cons.IH [of d1] show ?thesis by (simp only: if_True)
    qed
  qed
qed

lemma task_loop_eq:
  "task_loop d items =
     (if distinct (section_keys items) \<and> set (section_keys items) \<inter> dom d = {}
      then Inr (d ++ map_of (section_pairs items)) else Inl AssertionError)"
proof (induction items arbitrary: d)
  case Nil
  show ?case by (simp add: section_keys_def section_pairs_def)
next
  case (Cons it items)
  have step: "task_loop d (it # items) =
      (case merge_items d (item_pairs it) of
         Inl err \<Rightarrow> Inl err
       | Inr d' \<Rightarrow> task_loop d' items)"
    by (cases it) (auto simp: domIff)
  have keys: "section_keys (it # items) = map fst (item_pairs it) @ section_keys items"
    and pairs: "section_pairs (it # items) = item_pairs it @ section_pairs items"
    by (simp_all add: section_keys_def section_pairs_def)
  show ?case
  proof (cases "distinct (map fst (item_pairs it)) \<and> fst ` set (item_pairs it) \<inter> dom d = {}")
    case False
    then have "merge_items d (item_pairs it) = Inl AssertionError"
      by (simp add: merge_items_eq)
    moreover have "\<not> (distinct (section_keys (it # items))
        \<and> set (section_keys (it # items)) \<inter> dom d = {})"
      using False by (auto simp: keys)
    ultimately show ?thesis
      unfolding step by (simp only: if_False sum.case)
  next
    case True
    define d1 where "d1 = d ++ map_of (item_pairs it)"
    have m: "merge_items d (item_pairs it) = Inr d1"
      using True by (simp add: merge_items_eq d1_def)
    have run: "task_loop d (it # items) = task_loop d1 items"
      unfolding step m by simp
    have domm: "dom d1 = dom d \<union> fst ` set (item_pairs it)"
      by (auto simp: d1_def dom_map_of_conv_image_fst)
    have cond: "(distinct (section_keys (it # items))
          \<and> set (section_keys (it # items)) \<inter> dom d = {}) \<longleftrightarrow>
        (distinct (section_keys items) \<and> set (section_keys items) \<inter> dom d1 = {})"
      using True unfolding keys domm by auto
    show ?thesis
    proof (cases "distinct (section_keys items) \<and> set (section_keys items) \<inter> dom d1 = {}")
      case False
      with cond run Cons.IH [of d1] show ?thesis by (simp only: if_False)
    next
      case ok: True
      then have "dom (map_of (item_pairs it)) \<inter> dom (map_of (section_pairs items)) = {}"
        unfolding domm by (auto simp: dom_map_of_conv_image_fst section_keys_def)
      then have "map_of (item_pairs it) ++ map_of (section_pairs items) =
          map_of (section_pairs items) ++ map_of (item_pairs it)"
        by (rule map_add_comm)
      then have "d1 ++ map_of (section_pairs items) = d ++ map_of (section_pairs (it # items))"
        unfolding pairs map_of_append d1_def by (metis map_add_assoc)
      with ok cond run Cons.IH [of d1] show ?thesis by (simp only: if_True)
    qed
  qed
qed

lemma task_rule_eq:
  "task_rule items p =
     (if \<not> distinct (section_keys items) then Inl AssertionError
      else case map_of (section_pairs items) ''name'' of
             None \<Rightarrow> Inl (KeyError ''name'')
           | Some n \<Rightarrow>
               (case map_of (section_pairs items) ''command'' of
                  None \<Rightarrow> Inl (KeyError ''command'')
                | Some c \<Rightarrow>
                    Inr (Task_init p n
                           (dict_get (map_of (section_pairs items)) ''inputs'' (V_decls []))
                           (dict_get (map_of (section_pairs items)) ''decls'' (V_decls []))
                           c
                           (dict_get (map_of (section_pairs items)) ''outputs'' (V_decls []))
                           (dict_get (map_of (section_pairs items)) ''parameter_meta'' (V_meta (Dict [])))
                           (dict_get (map_of (section_pairs items)) ''runtime'' (V_meta (Dict [])))
                           (dict_get (map_of (section_pairs items)) ''meta'' (V_meta (Dict []))))))"
  by (simp add: task_rule_def task_loop_eq)

lemma section_absent:
  "k \<notin> set (section_keys items) \<Longrightarrow> map_of (section_pairs items) k = None"
  by (simp add: section_keys_def map_of_eq_None_iff)

lemma section_present:
  "k \<in> set (section_keys items) \<Longrightarrow> \<exists>v. map_of (section_pairs items) k = Some v"
  using section_absent [of k items]
  by (cases "map_of (section_pairs items) k") (auto simp: section_keys_def map_of_eq_None_iff)

lemma dict_get_absent: "d k = None \<Longrightarrow> dict_get d k dflt = dflt"
  by (simp add: dict_get_def)

text \<open>
  Claim C10. The construction of a task from its children fails when no child gives the
  name or when no child gives the command (with \<open>KeyError\<close> for the name first, when the
  sections are distinct). When the sections are distinct and both are there, the task is
  constructed whatever other sections are missing, and every section among inputs,
  declarations, outputs, \<open>parameter_meta\<close>, \<open>runtime\<close> and \<open>meta\<close> that is missing has its
  default: the empty list or the empty dictionary.
\<close>

theorem task_rule_sections:
  "(''name'' \<notin> set (section_keys items) \<longrightarrow> (\<exists>err. task_rule items p = Inl err))
   \<and> (''command'' \<notin> set (section_keys items) \<longrightarrow> (\<exists>err. task_rule items p = Inl err))
   \<and> (distinct (section_keys items) \<and> ''name'' \<notin> set (section_keys items)
        \<longrightarrow> task_rule items p = Inl (KeyError ''name''))
   \<and> (distinct (section_keys items) \<and> ''name'' \<in> set (section_keys items)
        \<and> ''command'' \<notin> set (section_keys items)
        \<longrightarrow> task_rule items p = Inl (KeyError ''command''))
   \<and> (distinct (section_keys items) \<and> ''name'' \<in> set (section_keys items)
        \<and> ''command'' \<in> set (section_keys items)
        \<longrightarrow> (\<exists>t. task_rule items p = Inr t))
   \<and> (task_rule items p = Inr t \<longrightarrow>
        (''inputs'' \<notin> set (section_keys items) \<longrightarrow> inputs t = V_decls [])
        \<and> (''decls'' \<notin> set (section_keys items) \<longrightarrow> postinputs t = V_decls [])
        \<and> (''outputs'' \<notin> set (section_keys items) \<longrightarrow> outputs t = V_decls [])
        \<and> (''parameter_meta'' \<notin> set (section_keys items)
             \<longrightarrow> parameter_meta t = V_meta (Dict []))
        \<and> (''runtime'' \<notin> set (section_keys items) \<longrightarrow> runtime t = V_meta (Dict []))
        \<and> (''meta'' \<notin> set (section_keys items) \<longrightarrow> meta t = V_meta (Dict [])))"
proof -
  have no_name: "\<exists>err. task_rule items p = Inl err"
    if "''name'' \<notin> set (section_keys items)"
    using section_absent [OF that] by (simp add: task_rule_eq)
  have no_command: "\<exists>err. task_rule items p = Inl err"
    if "''command'' \<notin> set (section_keys items)"
    using section_absent [OF that] by (simp add: task_rule_eq split: option.split)
  have key_name: "task_rule items p = Inl (KeyError ''name'')"
    if "distinct (section_keys items)" and "''name'' \<notin> set (section_keys items)"
    using that(1) section_absent [OF that(2)] by (simp add: task_rule_eq)
  have key_command: "task_rule items p = Inl (KeyError ''command'')"
    if "distinct (section_keys items)" and "''name'' \<in> set (section_keys items)"
      and "''command'' \<notin> set (section_keys items)"
    using that(1) section_present [OF that(2)] section_absent [OF that(3)]
    by (auto simp: task_rule_eq)
  have built: "\<exists>t. task_rule items p = Inr t"
    if "distinct (section_keys items)" and "''name'' \<in> set (section_keys items)"
      and "''command'' \<in> set (section_keys items)"
    using that(1) section_present [OF that(2)] section_present [OF that(3)]
    by (auto simp: task_rule_eq)
  have dflt: "(''inputs'' \<notin> set (section_keys items) \<longrightarrow> inputs t = V_decls [])
        \<and> (''decls'' \<notin> set (section_keys items) \<longrightarrow> postinputs t = V_decls [])
        \<and> (''outputs'' \<notin> set (section_keys items) \<longrightarrow> outputs t = V_decls [])
        \<and> (''parameter_meta'' \<notin> set (section_keys items)
             \<longrightarrow> parameter_meta t = V_meta (Dict []))
        \<and> (''runtime'' \<notin> set (section_keys items) \<longrightarrow> runtime t = V_meta (Dict []))
        \<and> (''meta'' \<notin> set (section_keys items) \<longrightarrow> meta t = V_meta (Dict []))"
    if "task_rule items p = Inr t"
    using that
    by (auto simp: task_rule_eq Task_init_def dict_get_absent section_absent
        split: if_splits option.splits)
  from no_name no_command key_name key_command built dflt show ?thesis by blast
qed

theorem task_rule_sections_witness:
  "task_rule [Name ''t'', Fragment [(''command'', V_expr cmd_echo)]] pos1 =
     Inr (Task_init pos1 (V_str ''t'') (V_decls []) (V_decls []) (V_expr cmd_echo) (V_decls [])
            (V_meta (Dict [])) (V_meta (Dict [])) (V_meta (Dict []) :: unit pyval))
   \<and> task_rule [Name ''t''] pos1 =
       (Inl (KeyError ''command'') :: error + (unit pyval, unit pyval, unit pyval, unit pyval) Task)
   \<and> task_rule [Fragment [(''command'', V_expr cmd_echo)]] pos1 =
       (Inl (KeyError ''name'') :: error + (unit pyval, unit pyval, unit pyval, unit pyval) Task)"
proof -
  let ?full = "[Name ''t'', Fragment [(''command'', V_expr cmd_echo)]] :: unit task_item list"
  let ?t = "Task_init pos1 (V_str ''t'') (V_decls []) (V_decls []) (V_expr cmd_echo) (V_decls [])
            (V_meta (Dict [])) (V_meta (Dict [])) (V_meta (Dict []) :: unit pyval)"
  have keys: "section_keys ?full = [''name'', ''command'']"
    by (simp add: section_keys_def section_pairs_def)
  have run: "task_rule ?full pos1 = Inr ?t"
    by (simp add: task_rule_def dict_get_def)
  from task_rule_sections [of ?full pos1] keys
  have "\<exists>t. task_rule ?full pos1 = Inr t" by simp
  note run
  moreover have "task_rule [Name ''t''] pos1 =
       (Inl (KeyError ''command'') :: error + (unit pyval, unit pyval, unit pyval, unit pyval) Task)"
    using task_rule_sections [of "[Name ''t''] :: unit task_item list" pos1]
    by (simp add: section_keys_def section_pairs_def)
  moreover have "task_rule [Fragment [(''command'', V_expr cmd_echo)]] pos1 =
       (Inl (KeyError ''name'') :: error + (unit pyval, unit pyval, unit pyval, unit pyval) Task)"
    using task_rule_sections [of "[Fragment [(''command'', V_expr cmd_echo)]] :: unit task_item list" pos1]
    by (simp add: section_keys_def section_pairs_def)
  ultimately show ?thesis by simp
qed

text \<open>
  Claim C3. A task with two \<open>runtime\<close> sections is rejected by the aggregator, yet by a
  failed assertion, which is not a validation error.
\<close>

theorem task_rule_duplicate_runtime:
  "task_rule [Name ''t'', Fragment [(''command'', V_expr cmd_echo)],
              Fragment [(''runtime'', V_meta (Dict []))],
              Fragment [(''runtime'', V_meta (Dict []))]] pos1 =
     (Inl AssertionError :: error + (unit pyval, unit pyval, unit pyval, unit pyval) Task)
   \<and> \<not> is_ValidationError AssertionError"
  by (simp add: task_rule_def)

section \<open>Properties of string and command literals\<close>

lemma strip2_marker: "strip2 (s @ ''${'') = s"
  by (simp add: strip2_def)

lemma command_parts_total:
  "only_placeholders items \<Longrightarrow>
     \<exists>parts. command_parts items = Inr parts \<and> length parts = length items"
proof (induction items)
  case Nil
  show ?case by simp
next
  case (Cons i items)
  then obtain xs where xs: "command_parts items = Inr xs" and l: "length xs = length items"
    by (auto simp: only_placeholders_def)
  from Cons.prems have "\<exists>x. command_part i = Inr x"
    by (cases i) (auto simp: only_placeholders_def)
  with xs l show ?case by auto
qed

lemma string_parts_children:
  assumes "endswith ft ''_FRAGMENT''" and "\<not> endswith pt ''_FRAGMENT''"
  shows "map string_part (children ft pt segs) = literal_parts placeholder_of segs"
proof (induction segs)
  case Nil
  show ?case by simp
next
  case (Cons g segs)
  with assms show ?case
    by (cases g) (simp_all add: strip2_marker placeholder_of_def)
qed

lemma command_parts_children:
  assumes "endswith ft ''_FRAGMENT''" and "\<not> endswith pt ''_FRAGMENT''"
    and "list_all embeds_placeholder segs"
  shows "command_parts (children ft pt segs) = Inr (literal_parts (\<lambda>e. e) segs)"
  using assms(3)
proof (induction segs)
  case Nil
  show ?case by simp
next
  case (Cons g segs)
  with assms(1,2) show ?case
    by (cases g) (simp_all add: strip2_marker)
qed

lemma literal_parts_text:
  "Text s \<in> set (literal_parts w segs) \<Longrightarrow>
     Fragment_text s \<in> set segs \<or> Plain_text s \<in> set segs"
proof (induction segs)
  case Nil
  then show ?case by simp
next
  case (Cons g segs)
  then show ?case by (cases g) auto
qed

lemma literal_parts_node:
  "Node x \<in> set (literal_parts w segs) \<Longrightarrow> \<exists>e. Embedded e \<in> set segs \<and> x = w e"
proof (induction segs)
  case Nil
  then show ?case by simp
next
  case (Cons g segs)
  then show ?case by (cases g) auto
qed

lemma literal_parts_length:
  "length (literal_parts w segs) = length (filter (\<lambda>g. g \<noteq> Closing) segs)"
proof (induction segs)
  case Nil
  show ?case by simp
next
  case (Cons g segs)
  then show ?case by (cases g) simp_all
qed

text \<open>
  Claim C5. The expression built from a string or command literal has one part for each
  child. The text of a fragment token, which ends with the interpolation-open marker
  \<open>${\<close>, is stored without the marker, the text of any other token as it is. For the
  children that the grammar engine hands over for a literal, the parts are exactly the
  literal text of the segments, without markers, and the placeholder nodes, in order: a
  literal part is the text of a segment, a node is the placeholder of an embedded
  expression, and there is one part for every segment but the placeholder-closing
  markers, which are not among the parts.
\<close>

theorem literal_parts_clean:
  "string_rule items p = E_String p (map string_part items)
   \<and> (only_placeholders items \<longrightarrow>
        (\<exists>parts. command_parts items = Inr parts \<and> length parts = length items))
   \<and> (endswith t ''_FRAGMENT'' \<longrightarrow>
        string_part (Token t (s @ ''${'')) = Text s
        \<and> command_part (Token t (s @ ''${'')) = Inr (Text s))
   \<and> (\<not> endswith t ''_FRAGMENT'' \<longrightarrow>
        string_part (Token t s) = Text s
        \<and> command_part (Token t s) = Inr (Text s))
   \<and> (endswith ft ''_FRAGMENT'' \<and> \<not> endswith pt ''_FRAGMENT'' \<longrightarrow>
        string_rule (children ft pt segs) p = E_String p (literal_parts placeholder_of segs)
        \<and> (list_all embeds_placeholder segs \<longrightarrow>
             command_rule (children ft pt segs) p =
               (Inr (Fragment [(''command'', V_expr (E_String p (literal_parts (\<lambda>e. e) segs)))])
                  :: error + 'v task_item)))
   \<and> (Text s \<in> set (literal_parts w segs) \<longrightarrow>
        Fragment_text s \<in> set segs \<or> Plain_text s \<in> set segs)
   \<and> (Node x \<in> set (literal_parts w segs) \<longrightarrow> (\<exists>e. Embedded e \<in> set segs \<and> x = w e))
   \<and> length (literal_parts w segs) = length (filter (\<lambda>g. g \<noteq> Closing) segs)"
proof -
  have a: "string_rule items p = E_String p (map string_part items)"
    by (simp add: string_rule_def)
  have b: "only_placeholders items \<longrightarrow>
        (\<exists>parts. command_parts items = Inr parts \<and> length parts = length items)"
    by (simp add: command_parts_total)
  have c: "endswith t ''_FRAGMENT'' \<longrightarrow>
        string_part (Token t (s @ ''${'')) = Text s
        \<and> command_part (Token t (s @ ''${'')) = Inr (Text s)"
    by (simp add: strip2_marker)
  have d: "\<not> endswith t ''_FRAGMENT'' \<longrightarrow>
        string_part (Token t s) = Text s
        \<and> command_part (Token t s) = Inr (Text s)"
    by simp
  have e: "endswith ft ''_FRAGMENT'' \<and> \<not> endswith pt ''_FRAGMENT'' \<longrightarrow>
        string_rule (children ft pt segs) p = E_String p (literal_parts placeholder_of segs)
        \<and> (list_all embeds_placeholder segs \<longrightarrow>
             command_rule (children ft pt segs) p =
               (Inr (Fragment [(''command'', V_expr (E_String p (literal_parts (\<lambda>e. e) segs)))])
                  :: error + 'v task_item))"
    by (simp add: string_rule_def command_rule_def string_parts_children
        command_parts_children)
  have f: "Text s \<in> set (literal_parts w segs) \<longrightarrow>
        Fragment_text s \<in> set segs \<or> Plain_text s \<in> set segs"
    by (blast dest: literal_parts_text)
  have g: "Node x \<in> set (literal_parts w segs) \<longrightarrow> (\<exists>e. Embedded e \<in> set segs \<and> x = w e)"
    by (blast dest: literal_parts_node)
  have h: "length (literal_parts w segs) = length (filter (\<lambda>g. g \<noteq> Closing) segs)"
    by (rule literal_parts_length)
  show ?thesis
    by (rule conjI [OF a conjI [OF b conjI [OF c conjI [OF d conjI [OF e conjI [OF f
        conjI [OF g h]]]]]]])
qed

theorem literal_parts_clean_witness:
  "string_rule (children ''STRING1_FRAGMENT'' ''STRING1_END'' segs_str) pos1 =
     E_String pos1 [Text ''hello '', Node (E_Placeholder pos2 [] (E_Ident pos2 [''x''])), Text ''!'']
   \<and> children ''STRING1_FRAGMENT'' ''STRING1_END'' segs_str =
       [Token ''STRING1_FRAGMENT'' ''hello ${'', Expr (E_Ident pos2 [''x'']),
        Token ''STRING1_END'' ''!'']
   \<and> command_rule (children ''COMMAND1_FRAGMENT'' ''COMMAND1_END'' segs_cmd) pos1 =
       (Inr (Fragment [(''command'', V_expr (E_String pos1
          [Text ''echo '', Node (E_Placeholder pos2 [] (E_Ident pos2 [''x''])), Text '' done'']))])
          :: error + unit task_item)
   \<and> only_placeholders items_cmd
   \<and> (\<exists>parts. command_parts items_cmd = Inr parts \<and> length parts = 3)
   \<and> string_part (Token ''STRING1_FRAGMENT'' ''hello ${'') = Text ''hello ''
   \<and> string_part (Token ''STRING1_END'' ''!'') = Text ''!''"
proof -
  have frag: "endswith ''STRING1_FRAGMENT'' ''_FRAGMENT''"
    and fin: "\<not> endswith ''STRING1_END'' ''_FRAGMENT''"
    and cfrag: "endswith ''COMMAND1_FRAGMENT'' ''_FRAGMENT''"
    and cfin: "\<not> endswith ''COMMAND1_END'' ''_FRAGMENT''"
    by (simp_all add: endswith_def)
  have ph: "only_placeholders items_cmd"
    by (simp add: only_placeholders_def items_cmd_def)
  have emb: "list_all embeds_placeholder segs_cmd"
    by (simp add: segs_cmd_def)
  note s = literal_parts_clean [where ft = "''STRING1_FRAGMENT''" and pt = "''STRING1_END''"
      and segs = segs_str and p = pos1 and t = "''STRING1_FRAGMENT''" and s = "''hello ''"]
  note c = literal_parts_clean [where ft = "''COMMAND1_FRAGMENT''" and pt = "''COMMAND1_END''"
      and segs = segs_cmd and p = pos1 and items = items_cmd
      and t = "''STRING1_END''" and s = "''!''"]
  note grammar = s [THEN conjunct2, THEN conjunct2, THEN conjunct2, THEN conjunct2,
      THEN conjunct1, THEN mp, OF conjI [OF frag fin]]
  note cgrammar = c [THEN conjunct2, THEN conjunct2, THEN conjunct2, THEN conjunct2,
      THEN conjunct1, THEN mp, OF conjI [OF cfrag cfin], THEN conjunct2, THEN mp, OF emb]
  have r1: "string_rule (children ''STRING1_FRAGMENT'' ''STRING1_END'' segs_str) pos1 =
     E_String pos1 [Text ''hello '', Node (E_Placeholder pos2 [] (E_Ident pos2 [''x''])), Text ''!'']"
    using grammar [THEN conjunct1] by (simp add: segs_str_def placeholder_of_def pos2_def)
  have r2: "children ''STRING1_FRAGMENT'' ''STRING1_END'' segs_str =
       [Token ''STRING1_FRAGMENT'' ''hello ${'', Expr (E_Ident pos2 [''x'']),
        Token ''STRING1_END'' ''!'']"
    by (simp add: segs_str_def)
  have r3: "command_rule (children ''COMMAND1_FRAGMENT'' ''COMMAND1_END'' segs_cmd) pos1 =
       (Inr (Fragment [(''command'', V_expr (E_String pos1
          [Text ''echo '', Node (E_Placeholder pos2 [] (E_Ident pos2 [''x''])), Text '' done'']))])
          :: error + unit task_item)"
    using cgrammar by (simp add: segs_cmd_def)
  have r4: "\<exists>parts. command_parts items_cmd = Inr parts \<and> length parts = 3"
    using c [THEN conjunct2, THEN conjunct1, THEN mp, OF ph] by (simp add: items_cmd_def)
  have r5: "string_part (Token ''STRING1_FRAGMENT'' ''hello ${'') = Text ''hello ''"
    using s [THEN conjunct2, THEN conjunct2, THEN conjunct1, THEN mp, OF frag] by simp
  have r6: "string_part (Token ''STRING1_END'' ''!'') = Text ''!''"
    using c [THEN conjunct2, THEN conjunct2, THEN conjunct2, THEN conjunct1, THEN mp, OF fin]
    by simp
  from r1 r2 r3 ph r4 r5 r6 show ?thesis by simp
qed

section \<open>Properties of meta sections\<close>

lemma sequence_Inr:
  "sequence xs = Inr ys \<Longrightarrow> list_all2 (\<lambda>x y. x = Inr y) xs ys"
proof (induction xs arbitrary: ys)
  case Nil
  then show ?case by simp
next
  case (Cons x xs)
  then show ?case by (auto split: sum.splits)
qed

lemma sequence_map_Inr:
  assumes "sequence (map f ts) = Inr vs" and "v \<in> set vs"
  shows "\<exists>t \<in> set ts. f t = Inr v"
proof -
  from sequence_Inr [OF assms(1)] have l: "list_all2 (\<lambda>x y. x = Inr y) (map f ts) vs" .
  from assms(2) obtain i where i: "i < length vs" and v: "vs ! i = v"
    by (auto simp: in_set_conv_nth)
  from l have len: "length ts = length vs" by (auto dest: list_all2_lengthD)
  from l i have "map f ts ! i = Inr (vs ! i)" by (auto dest: list_all2_nthD2)
  with i len v have "f (ts ! i) = Inr v" by simp
  moreover from i len have "ts ! i \<in> set ts" by simp
  ultimately show ?thesis by blast
qed

lemma meta_object_loop_Inr:
  "meta_object_loop d items = Inr d' \<Longrightarrow> d' = d @ items"
proof (induction items arbitrary: d)
  case Nil
  then show ?case by simp
next
  case (Cons kv items)
  obtain k v where kv: "kv = (k, v)" by (cases kv)
  from Cons.prems have "meta_object_loop (d @ [(k, v)]) items = Inr d'"
    by (auto simp: kv split: if_splits)
  from Cons.IH [OF this] show ?case by (simp add: kv)
qed

lemma meta_literal_no_expr: "meta_literal lib eval items = Inr v \<Longrightarrow> no_expr v"
  by (auto simp: meta_literal_def split: list.splits sum.splits)

lemma transform_meta_no_expr:
  "transform_meta lib eval t = Inr v \<Longrightarrow> no_expr v"
proof (induction t arbitrary: v)
  case (Meta_literal items)
  then show ?case by (simp add: meta_literal_no_expr)
next
  case (Meta_array ts)
  from Meta_array.prems obtain vs
    where vs: "sequence (map (transform_meta lib eval) ts) = Inr vs" and v: "v = List vs"
    by (auto simp: meta_array_def split: sum.splits)
  have "no_expr x" if "x \<in> set vs" for x
    using sequence_map_Inr [OF vs that] Meta_array.IH by blast
  then show ?case by (simp add: v list_all_iff)
next
  case (Meta_object kts)
  let ?g = "\<lambda>kt. case transform_meta lib eval (snd kt) of
                    Inl err \<Rightarrow> Inl err
                  | Inr v \<Rightarrow> (meta_kv (fst kt) v :: error + string \<times> 'a meta)"
  from Meta_object.prems obtain kvs
    where kvs: "sequence (map ?g kts) = Inr kvs" and obj: "meta_object kvs = Inr v"
    by (auto split: sum.splits)
  from obj have v: "v = Dict kvs"
    by (auto simp: meta_object_def split: sum.splits dest: meta_object_loop_Inr)
  have "no_expr (snd kv)" if "kv \<in> set kvs" for kv
  proof -
    from sequence_map_Inr [OF kvs that] obtain kt where kt: "kt \<in> set kts" and g: "?g kt = Inr kv"
      by blast
    from g obtain w where w: "transform_meta lib eval (snd kt) = Inr w"
      and m: "meta_kv (fst kt) w = Inr kv"
      by (auto split: sum.splits)
    from m have "snd kv = w" by (auto simp: meta_kv_def split: item.splits)
    moreover have "snd kt \<in> Basic_BNFs.snds kt" by (cases kt) simp
    ultimately show ?thesis using Meta_object.IH [OF kt _ w] by simp
  qed
  then show ?case by (simp add: v list_all_iff)
qed


lemma transform_meta_section_Inr:
  assumes "transform_meta_section lib eval kind t = Inr d"
  shows "\<exists>ty k v. kind = Token ty k \<and> d = [(k, v)] \<and> transform_meta lib eval t = Inr v
           \<and> no_expr v"
proof -
  from assms obtain v where v: "transform_meta lib eval t = Inr v"
    and m: "meta_section kind v = Inr d"
    by (auto simp: transform_meta_section_def split: sum.splits)
  from m obtain ty k where "kind = Token ty k" and "d = [(k, v)]"
    by (auto simp: meta_section_def split: item.splits)
  with v transform_meta_no_expr [OF v] show ?thesis by blast
qed

lemma from_rules_pairs:
  assumes "from_rules lib eval it" and "(k, v) \<in> set (item_pairs it)"
    and "k = ''parameter_meta'' \<or> k = ''runtime'' \<or> k = ''meta''"
  shows "mapping_ok v"
  using assms
proof (cases rule: from_rules.cases)
  case (command its q)
  with assms(2,3) show ?thesis
    by (auto simp: command_rule_def split: sum.splits)
next
  case (meta_section kind tree d)
  from transform_meta_section_Inr [OF meta_section(2)] assms(2) meta_section(1)
  show ?thesis by (auto simp: section_fragment_def)
qed (auto simp: input_decls_def noninput_decls_def output_decls_def)

lemma section_value:
  assumes "map_of (section_pairs items) k = Some v"
  shows "\<exists>it \<in> set items. (k, v) \<in> set (item_pairs it)"
  using map_of_SomeD [OF assms] by (auto simp: section_pairs_def)

lemma dict_get_mapping_ok:
  assumes "\<forall>it \<in> set items. from_rules lib eval it"
    and "k = ''parameter_meta'' \<or> k = ''runtime'' \<or> k = ''meta''"
  shows "mapping_ok (dict_get (map_of (section_pairs items)) k (V_meta (Dict [])))"
proof (cases "map_of (section_pairs items) k")
  case None
  then show ?thesis by (simp add: dict_get_def)
next
  case (Some v)
  from section_value [OF Some] obtain it where "it \<in> set items" and "(k, v) \<in> set (item_pairs it)"
    by blast
  with assms from_rules_pairs [of lib eval it k v] have "mapping_ok v" by blast
  with Some show ?thesis by (simp add: dict_get_def)
qed

text \<open>
  Claim C6. A literal of a meta section is evaluated at once: when its type is inferred
  and it evaluates, the transformer yields the plain value. Whatever value the transformer
  yields for a meta section's tree holds no expression node, and so the \<open>parameter_meta\<close>,
  \<open>runtime\<close> and \<open>meta\<close> mappings of a task constructed from children that the
  transformer's rules produced are dictionaries without expression nodes.
\<close>

theorem meta_constant_folded:
  "(infer_type lib e TypeEnv_empty = Inr ty \<and> eval e = Inr x \<longrightarrow>
      transform_meta lib eval (Meta_literal [e]) = Inr (Plain x))
   \<and> (transform_meta lib eval t = Inr v \<longrightarrow> no_expr v)
   \<and> (transform_meta_section lib eval kind t = Inr d \<longrightarrow>
        list_all (\<lambda>kv. no_expr (snd kv)) d)
   \<and> ((\<forall>it \<in> set items. from_rules lib eval it) \<and> task_rule items p = Inr task \<longrightarrow>
        mapping_ok (parameter_meta task) \<and> mapping_ok (runtime task) \<and> mapping_ok (meta task))"
proof -
  have a: "infer_type lib e TypeEnv_empty = Inr ty \<and> eval e = Inr x \<longrightarrow>
      transform_meta lib eval (Meta_literal [e]) = Inr (Plain x)"
    by (simp add: meta_literal_def)
  have b: "transform_meta lib eval t = Inr v \<longrightarrow> no_expr v"
    by (blast dest: transform_meta_no_expr)
  have c: "transform_meta_section lib eval kind t = Inr d \<longrightarrow>
        list_all (\<lambda>kv. no_expr (snd kv)) d"
    by (auto dest: transform_meta_section_Inr)
  have d: "(\<forall>it \<in> set items. from_rules lib eval it) \<and> task_rule items p = Inr task \<longrightarrow>
        mapping_ok (parameter_meta task) \<and> mapping_ok (runtime task) \<and> mapping_ok (meta task)"
  proof
    assume h: "(\<forall>it \<in> set items. from_rules lib eval it) \<and> task_rule items p = Inr task"
    then have r: "\<forall>it \<in> set items. from_rules lib eval it" by simp
    from h obtain n c where "task =
        Task_init p n
          (dict_get (map_of (section_pairs items)) ''inputs'' (V_decls []))
          (dict_get (map_of (section_pairs items)) ''decls'' (V_decls []))
          c
          (dict_get (map_of (section_pairs items)) ''outputs'' (V_decls []))
          (dict_get (map_of (section_pairs items)) ''parameter_meta'' (V_meta (Dict [])))
          (dict_get (map_of (section_pairs items)) ''runtime'' (V_meta (Dict [])))
          (dict_get (map_of (section_pairs items)) ''meta'' (V_meta (Dict [])))"
      by (auto simp: task_rule_eq split: if_splits option.splits)
    then show "mapping_ok (parameter_meta task) \<and> mapping_ok (runtime task)
        \<and> mapping_ok (meta task)"
      using dict_get_mapping_ok [OF r, of "''parameter_meta''"]
        dict_get_mapping_ok [OF r, of "''runtime''"]
        dict_get_mapping_ok [OF r, of "''meta''"]
      by (simp add: Task_init_def)
  qed
  show ?thesis by (rule conjI [OF a conjI [OF b conjI [OF c d]]])
qed

theorem meta_constant_folded_witness:
  "transform_meta_section lib_add literal_value (Token ''RUNTIME'' ''runtime'') runtime_tree =
     Inr [(''runtime'', runtime_dict)]
   \<and> no_expr runtime_dict
   \<and> transform_meta lib_add literal_value (Meta_literal [E_Int pos2 4]) = Inr (Plain (P_int 4))
   \<and> task_rule items_rt pos1 = Inr task_rt
   \<and> runtime task_rt = V_meta runtime_dict
   \<and> mapping_ok (parameter_meta task_rt) \<and> mapping_ok (runtime task_rt)
   \<and> mapping_ok (meta task_rt)"
proof -
  have sec: "transform_meta_section lib_add literal_value (Token ''RUNTIME'' ''runtime'')
      runtime_tree = Inr [(''runtime'', runtime_dict)]"
    by (simp add: transform_meta_section_def runtime_tree_def meta_literal_def
        meta_kv_def meta_object_def meta_array_def meta_section_def runtime_dict_def)
  have lit: "infer_type lib_add (E_Int pos2 4) TypeEnv_empty = Inr (T_Int False)
      \<and> literal_value (E_Int pos2 4) = Inr (P_int 4)"
    by simp
  have cmd: "command_rule [Token ''COMMAND1_END'' ''echo''] pos1 =
      (Inr (Fragment [(''command'', V_expr cmd_echo)]) :: error + plain task_item)"
    by (simp add: command_rule_def cmd_echo_def endswith_def)
  have rules: "\<forall>it \<in> set items_rt. from_rules lib_add literal_value it"
    using from_rules.name_token [of lib_add literal_value "''t''"]
      from_rules.command [OF cmd, of lib_add literal_value]
      from_rules.meta_section [OF sec]
    by (simp add: items_rt_def)
  have run: "task_rule items_rt pos1 = Inr task_rt"
    by (simp add: task_rule_def section_fragment_def dict_get_def items_rt_def task_rt_def)
  note m = meta_constant_folded [where lib = lib_add and eval = literal_value
      and e = "E_Int pos2 4" and ty = "T_Int False" and x = "P_int 4"
      and t = runtime_tree and kind = "Token ''RUNTIME'' ''runtime''"
      and d = "[(''runtime'', runtime_dict)]"
      and items = items_rt and p = pos1 and task = task_rt]
  from m [THEN conjunct2, THEN conjunct2, THEN conjunct1, THEN mp, OF sec]
  have "no_expr runtime_dict"
    by simp
  moreover from m [THEN conjunct1, THEN mp, OF lit]
  have "transform_meta lib_add literal_value (Meta_literal [E_Int pos2 4]) = Inr (Plain (P_int 4))" .
  moreover from m [THEN conjunct2, THEN conjunct2, THEN conjunct2, THEN mp, OF conjI [OF rules run]]
  have "mapping_ok (parameter_meta task_rt) \<and> mapping_ok (runtime task_rt)
      \<and> mapping_ok (meta task_rt)" .
  moreover have "runtime task_rt = V_meta runtime_dict"
    by (simp add: Task_init_def task_rt_def)
  ultimately show ?thesis using sec run by simp
qed

section \<open>Properties of the inputs set to the empty array\<close>

lemma set_empty_Inl:
  "set_empty tn help av env n = Inl err \<Longrightarrow> \<exists>msg. err = SystemExit msg"
  by (auto simp: set_empty_def die_def split: option.splits if_splits ty.splits)

lemma set_empty_Inr:
  assumes "set_empty tn help av env n = Inr env'"
  shows "\<exists>decl item opt. map_of av n = Some decl \<and> type decl = T_Array item opt False
           \<and> env' = Bindings_bind n (Value_Array item []) decl env"
  using assms
  by (auto simp: set_empty_def die_def split: option.splits if_splits ty.splits)

lemma set_empties_grows:
  "set_empties tn help av env names = Inr env' \<Longrightarrow> set env \<subseteq> set env'"
proof (induction names arbitrary: env)
  case Nil
  then show ?case by simp
next
  case (Cons n names)
  from Cons.prems obtain env1 where s: "set_empty tn help av env n = Inr env1"
    and r: "set_empties tn help av env1 names = Inr env'"
    by (auto split: sum.splits)
  from set_empty_Inr [OF s] have "set env \<subseteq> set env1"
    by (auto simp: Bindings_bind_def)
  with Cons.IH [OF r] show ?case by blast
qed

lemma set_empties_Inr:
  assumes "set_empties tn help av env names = Inr env'" and "n \<in> set names"
  shows "\<exists>decl item opt. map_of av n = Some decl \<and> type decl = T_Array item opt False
           \<and> (n, Value_Array item [], decl) \<in> set env'"
  using assms
proof (induction names arbitrary: env)
  case Nil
  then show ?case by simp
next
  case (Cons m names)
  from Cons.prems(1) obtain env1 where s: "set_empty tn help av env m = Inr env1"
    and r: "set_empties tn help av env1 names = Inr env'"
    by (auto split: sum.splits)
  show ?case
  proof (cases "n = m")
    case True
    from set_empty_Inr [OF s] obtain decl item opt where d: "map_of av m = Some decl"
      "type decl = T_Array item opt False" "env1 = Bindings_bind m (Value_Array item []) decl env"
      by blast
    then have "(m, Value_Array item [], decl) \<in> set env1" by (simp add: Bindings_bind_def)
    with set_empties_grows [OF r] have "(m, Value_Array item [], decl) \<in> set env'" by blast
    with d True show ?thesis by blast
  next
    case False
    with Cons.prems(2) have "n \<in> set names" by simp
    from Cons.IH [OF r this] show ?thesis .
  qed
qed

lemma set_empties_Inl:
  "set_empties tn help av env names = Inl err \<Longrightarrow> \<exists>msg. err = SystemExit msg"
proof (induction names arbitrary: env)
  case Nil
  then show ?case by simp
next
  case (Cons n names)
  then show ?case by (auto split: sum.splits dest: set_empty_Inl)
qed

text \<open>
  Claim C9. For an input named by \<open>--empty\<close>, the resolver leaves through \<open>die\<close> when the
  declaration's type is not an array or carries the \<open>nonempty\<close> flag, and so does the whole
  loop over the names; otherwise it binds the name to the empty array of the item type,
  and a loop that ends has done so for every name. The construction check is not what
  rejects the empty array: it accepts a declaration of a \<open>nonempty\<close> array type.
\<close>

theorem set_empty_rejects:
  "(map_of av n = Some decl \<and> (\<not> is_Array (type decl) \<or> ty_nonempty (type decl)) \<longrightarrow>
      set_empty tn hlp av env n =
        Inl (SystemExit (''Cannot set input '' @ ty_str (type decl) @ '' '' @ Decl.name decl
                          @ '' to empty array''))
      \<and> (n \<in> set names \<longrightarrow> (\<exists>msg. set_empties tn hlp av env names = Inl (SystemExit msg))))
   \<and> (map_of av n = Some decl \<and> type decl = T_Array item opt False \<longrightarrow>
      set_empty tn hlp av env n = Inr (Bindings_bind n (Value_Array item []) decl env))
   \<and> (set_empties tn hlp av env names = Inr env' \<and> n \<in> set names \<longrightarrow>
      (\<exists>decl item opt. map_of av n = Some decl \<and> type decl = T_Array item opt False
         \<and> (n, Value_Array item [], decl) \<in> set env'))
   \<and> (\<exists>d. Decl_init p (T_Array item opt True) nm o1 o2 e = Inr d \<and> ty_nonempty (type d))"
proof -
  have a: "map_of av n = Some decl \<and> (\<not> is_Array (type decl) \<or> ty_nonempty (type decl)) \<longrightarrow>
      set_empty tn hlp av env n =
        Inl (SystemExit (''Cannot set input '' @ ty_str (type decl) @ '' '' @ Decl.name decl
                          @ '' to empty array''))
      \<and> (n \<in> set names \<longrightarrow> (\<exists>msg. set_empties tn hlp av env names = Inl (SystemExit msg)))"
  proof (intro impI conjI)
    assume h: "map_of av n = Some decl \<and> (\<not> is_Array (type decl) \<or> ty_nonempty (type decl))"
    then show "set_empty tn hlp av env n =
        Inl (SystemExit (''Cannot set input '' @ ty_str (type decl) @ '' '' @ Decl.name decl
                          @ '' to empty array''))"
      by (auto simp: set_empty_def die_def)
    assume n: "n \<in> set names"
    show "\<exists>msg. set_empties tn hlp av env names = Inl (SystemExit msg)"
    proof (cases "set_empties tn hlp av env names")
      case (Inl err)
      with set_empties_Inl [OF Inl] show ?thesis by blast
    next
      case (Inr env')
      from set_empties_Inr [OF Inr n] h show ?thesis by auto
    qed
  qed
  have b: "map_of av n = Some decl \<and> type decl = T_Array item opt False \<longrightarrow>
      set_empty tn hlp av env n = Inr (Bindings_bind n (Value_Array item []) decl env)"
    by (simp add: set_empty_def)
  have c: "set_empties tn hlp av env names = Inr env' \<and> n \<in> set names \<longrightarrow>
      (\<exists>decl item opt. map_of av n = Some decl \<and> type decl = T_Array item opt False
         \<and> (n, Value_Array item [], decl) \<in> set env')"
    by (blast dest: set_empties_Inr)
  have d: "\<exists>d. Decl_init p (T_Array item opt True) nm o1 o2 e = Inr d \<and> ty_nonempty (type d)"
    by (simp add: Decl_init_def)
  show ?thesis by (rule conjI [OF a conjI [OF b conjI [OF c d]]])
qed

theorem set_empty_rejects_witness:
  "set_empty ''t'' ''help'' available ([] :: unit Bindings) ''xs'' =
     Inl (SystemExit ''Cannot set input Array[Int]+ xs to empty array'')
   \<and> set_empty ''t'' ''help'' available ([] :: unit Bindings) ''a'' =
     Inl (SystemExit ''Cannot set input Int a to empty array'')
   \<and> set_empty ''t'' ''help'' available ([] :: unit Bindings) ''ys'' =
     Inr [(''ys'', Value_Array (T_String False) [], decl_ys)]
   \<and> set_empties ''t'' ''help'' available ([] :: unit Bindings) [''ys''] =
     Inr [(''ys'', Value_Array (T_String False) [], decl_ys)]
   \<and> (\<exists>msg. set_empties ''t'' ''help'' available ([] :: unit Bindings) [''ys'', ''xs''] =
        Inl (SystemExit msg))"
proof -
  have xs: "map_of available ''xs'' = Some decl_xs
      \<and> (\<not> is_Array (type decl_xs) \<or> ty_nonempty (type decl_xs))"
    and a: "map_of available ''a'' = Some decl_a
      \<and> (\<not> is_Array (type decl_a) \<or> ty_nonempty (type decl_a))"
    and ys: "map_of available ''ys'' = Some decl_ys
      \<and> type decl_ys = T_Array (T_String False) False False"
    by (simp_all add: available_def decl_xs_def decl_a_def decl_ys_def)
  note t = set_empty_rejects [where tn = "''t''" and hlp = "''help''" and av = available
      and env = "[] :: unit Bindings"]
  have r1: "set_empty ''t'' ''help'' available ([] :: unit Bindings) ''xs'' =
     Inl (SystemExit ''Cannot set input Array[Int]+ xs to empty array'')"
    and r5: "\<exists>msg. set_empties ''t'' ''help'' available ([] :: unit Bindings) [''ys'', ''xs''] =
        Inl (SystemExit msg)"
    using t [where n = "''xs''" and decl = decl_xs and names = "[''ys'', ''xs'']",
        THEN conjunct1, THEN mp, OF xs]
    by (simp_all add: decl_xs_def quant_str_def)
  have r2: "set_empty ''t'' ''help'' available ([] :: unit Bindings) ''a'' =
     Inl (SystemExit ''Cannot set input Int a to empty array'')"
    using t [where n = "''a''" and decl = decl_a, THEN conjunct1, THEN mp, OF a]
    by (simp add: decl_a_def quant_str_def)
  have r3: "set_empty ''t'' ''help'' available ([] :: unit Bindings) ''ys'' =
     Inr [(''ys'', Value_Array (T_String False) [], decl_ys)]"
    using t [where n = "''ys''" and decl = decl_ys, THEN conjunct2, THEN conjunct1, THEN mp, OF ys]
    by (simp add: Bindings_bind_def)
  have r4: "set_empties ''t'' ''help'' available ([] :: unit Bindings) [''ys''] =
     Inr [(''ys'', Value_Array (T_String False) [], decl_ys)]"
    using r3 by simp
  from r1 r2 r3 r4 r5 show ?thesis by simp
qed

section \<open>Properties of the error printer\<close>

lemma trim_end_spec:
  assumes "1 \<le> col" and "e0 \<le> int (length l) + 1"
  shows "\<exists>e'. trim_end l col e0 = Inr e'
           \<and> e' \<le> e0
           \<and> (e0 \<le> col + 1 \<longrightarrow> e' = e0)
           \<and> (col + 1 < e0 \<longrightarrow> col + 1 \<le> e')
           \<and> (\<forall>k. e' \<le> k \<and> k < e0 \<longrightarrow> l ! nat (k - 1) = CHR '' '')
           \<and> (col + 1 < e' \<longrightarrow> l ! nat (e' - 2) \<noteq> CHR '' '')"
  using assms
proof (induction l col e0 rule: trim_end.induct)
  case (1 l col e0)
  show ?case
  proof (cases "e0 > col + 1")
    case False
    then show ?thesis
      by (subst trim_end.simps) auto
  next
    case True
    with "1.prems" have idx: "py_index l (e0 - 2) = Inr (l ! nat (e0 - 2))"
      by (auto simp: py_index_def)
    show ?thesis
    proof (cases "l ! nat (e0 - 2) = CHR '' ''")
      case False
      with True idx show ?thesis
        by (subst trim_end.simps) auto
    next
      case sp: True
      from "1.IH" [OF True idx sp] "1.prems"
      obtain e' where e': "trim_end l col (e0 - 1) = Inr e'" "e' \<le> e0 - 1"
        "e0 - 1 \<le> col + 1 \<longrightarrow> e' = e0 - 1" "col + 1 < e0 - 1 \<longrightarrow> col + 1 \<le> e'"
        "\<forall>k. e' \<le> k \<and> k < e0 - 1 \<longrightarrow> l ! nat (k - 1) = CHR '' ''"
        "col + 1 < e' \<longrightarrow> l ! nat (e' - 2) \<noteq> CHR '' ''"
        by auto
      have run: "trim_end l col e0 = Inr e'"
        using True idx sp e'(1) by (subst trim_end.simps) simp
      have dropped: "l ! nat (k - 1) = CHR '' ''" if "e' \<le> k" and "k < e0" for k
      proof (cases "k < e0 - 1")
        case True
        with that e'(5) show ?thesis by blast
      next
        case False
        with that have eq: "k - 1 = e0 - 2" by simp
        show ?thesis unfolding eq by (rule sp)
      qed
      from run e'(2,3,4,6) True dropped show ?thesis
        by auto
    qed
  qed
qed


lemma length_replace_tabs: "length (replace_tabs l) = length l"
  by (simp add: replace_tabs_def)

text \<open>
  Claim C8, as amended. For a validation error with a source text, a reported line within
  the text, a column of at least one and a span that ends within the line, the printer
  prints the header, the reported line with its tabs as spaces, and an underline that
  starts at the column. The underline ends at the end of the span on that line (the end
  column, or the end of the line when the span goes on to later lines) moved left past
  spaces: every column it gives up holds a space, it keeps at least one column of a span
  that has more than one, and its last column is not a space unless it is the only one.
\<close>

theorem excerpt_underline:
  assumes "src \<noteq> []"
    and "py_index (split_lines src) (line p - 1) = Inr l"
    and "1 \<le> column p"
    and "span_end p (replace_tabs l) \<le> int (length l) + 1"
  shows "\<exists>e'.
      print_error (WDL_ValidationError p msg (Some src)) st =
        Inr (print (underline (column p) e')
               (print (''    '' @ replace_tabs l) (print (header p msg) st)))
      \<and> (\<exists>st'. print_error (WDL_StaticTypeMismatch p msg (Some src) expected actual) st = Inr st'
            \<and> stderr st' = stderr st @ [header p msg, ''    '' @ replace_tabs l,
                                          underline (column p) e'])
      \<and> underline (column p) e' =
          ''    '' @ replicate (nat (column p - 1)) CHR '' ''
                 @ replicate (nat (e' - column p)) CHR ''^''
      \<and> e' \<le> span_end p (replace_tabs l)
      \<and> (span_end p (replace_tabs l) \<le> column p + 1 \<longrightarrow> e' = span_end p (replace_tabs l))
      \<and> (column p + 1 < span_end p (replace_tabs l) \<longrightarrow> column p + 1 \<le> e')
      \<and> (\<forall>k. e' \<le> k \<and> k < span_end p (replace_tabs l) \<longrightarrow>
             replace_tabs l ! nat (k - 1) = CHR '' '')
      \<and> (column p + 1 < e' \<longrightarrow> replace_tabs l ! nat (e' - 2) \<noteq> CHR '' '')"
proof -
  let ?l = "replace_tabs l"
  from assms(4) have bound: "span_end p ?l \<le> int (length ?l) + 1"
    by (simp add: length_replace_tabs)
  from trim_end_spec [OF assms(3) bound]
  obtain e' where t: "trim_end ?l (column p) (span_end p ?l) = Inr e'"
    and props: "e' \<le> span_end p ?l"
      "span_end p ?l \<le> column p + 1 \<longrightarrow> e' = span_end p ?l"
      "column p + 1 < span_end p ?l \<longrightarrow> column p + 1 \<le> e'"
      "\<forall>k. e' \<le> k \<and> k < span_end p ?l \<longrightarrow> ?l ! nat (k - 1) = CHR '' ''"
      "column p + 1 < e' \<longrightarrow> ?l ! nat (e' - 2) \<noteq> CHR '' ''"
    by blast
  have ex: "show_excerpt p src st1 =
      Inr (print (underline (column p) e') (print (''    '' @ ?l) st1))" for st1
    using assms(2) t by (simp add: show_excerpt_def Let_def span_end_def)
  have v: "print_error (WDL_ValidationError p msg (Some src)) st =
        Inr (print (underline (column p) e') (print (''    '' @ ?l) (print (header p msg) st)))"
    using assms(1) ex by (simp add: excerpt_if_any_def)
  have m: "\<exists>st'. print_error (WDL_StaticTypeMismatch p msg (Some src) expected actual) st = Inr st'
            \<and> stderr st' = stderr st @ [header p msg, ''    '' @ ?l, underline (column p) e']"
    using assms(1) ex by (simp add: excerpt_if_any_def print_def)
  have u: "underline (column p) e' =
          ''    '' @ replicate (nat (column p - 1)) CHR '' ''
                 @ replicate (nat (e' - column p)) CHR ''^''"
    by (simp add: underline_def times_def)
  from v m u props show ?thesis by blast
qed


theorem excerpt_underline_witness:
  "src_two_lines \<noteq> []
   \<and> py_index (split_lines src_two_lines) (line pos_two_lines - 1) = Inr ''ab  ''
   \<and> 1 \<le> column pos_two_lines
   \<and> span_end pos_two_lines (replace_tabs ''ab  '') \<le> int (length ''ab  '') + 1
   \<and> (\<exists>e'. print_error (WDL_ValidationError pos_two_lines ''bad'' (Some src_two_lines)) st0 =
          Inr (print (underline (column pos_two_lines) e')
                 (print (''    '' @ replace_tabs ''ab  '')
                    (print (header pos_two_lines ''bad'') st0)))
        \<and> e' \<le> span_end pos_two_lines (replace_tabs ''ab  '')
        \<and> (column pos_two_lines + 1 < e' \<longrightarrow> replace_tabs ''ab  '' ! nat (e' - 2) \<noteq> CHR '' ''))"
proof -
  have h1: "src_two_lines \<noteq> []"
    by (simp add: src_two_lines_def)
  have h2: "py_index (split_lines src_two_lines) (line pos_two_lines - 1) = Inr ''ab  ''"
    by code_simp
  have h3: "1 \<le> column pos_two_lines"
    by (simp add: pos_two_lines_def)
  have h4: "span_end pos_two_lines (replace_tabs ''ab  '') \<le> int (length ''ab  '') + 1"
    by (simp add: span_end_def pos_two_lines_def replace_tabs_def)
  from excerpt_underline [OF h1 h2 h3 h4, of "''bad''" st0] h1 h2 h3 h4
  show ?thesis by blast
qed

text \<open>
  Claim C8 as it is stated fails: for a span that goes on to a second line, the underline
  of the line \<open>ab\<close> with two spaces after it is two carets, not the four up to the end of
  the line; for a span of columns 3 to 8 on one line that ends in spaces, it is three
  carets, not six.
\<close>

theorem excerpt_underline_counterexample:
  "print_error (WDL_ValidationError pos_two_lines ''bad'' (Some src_two_lines)) st0 =
     Inr \<lparr>quant_warning = False,
          stderr = [''(t.wdl Ln 1 Col 1) bad'', ''    ab  '', ''    ^^'']\<rparr>
   \<and> claimed_underline pos_two_lines ''ab  '' = ''    ^^^^''
   \<and> ''    ^^'' \<noteq> claimed_underline pos_two_lines ''ab  ''
   \<and> print_error (WDL_ValidationError pos_one_line ''bad'' (Some src_one_line)) st0 =
     Inr \<lparr>quant_warning = False,
          stderr = [''(t.wdl Ln 2 Col 3) bad'', ''      abc   ;'', ''      ^^^'']\<rparr>
   \<and> claimed_underline pos_one_line ''  abc   ;'' = ''      ^^^^^^''
   \<and> ''      ^^^'' \<noteq> claimed_underline pos_one_line ''  abc   ;''"
  by code_simp

end
